theory Spec2Isabelle
  imports Main
begin

section \<open>Python values and the object heap\<close>

text \<open>
  The module \<^verbatim>\<open>django_components/context.py\<close> keeps its state in a Django
  \<^verbatim>\<open>Context\<close>: a stack (\<^verbatim>\<open>context.dicts\<close>) of dict objects. The dicts that hold
  the slot/component associations and the slot fills are shared by reference between
  layers and between contexts, and the functions mutate them in place. Dicts and
  contexts are therefore objects in an explicit heap, and a value stored in a dict is
  either an immediate value or a reference to such an object.
\<close>

type_synonym addr = nat

datatype val =
    VNone
  | VBool bool
  | VInt int
  | VStr string
  | VDict addr
  | VCtx addr
  | VFill nat

text \<open>
  \<open>VDict a\<close> and \<open>VCtx c\<close> are references to a dict and to a Context object.
  \<open>VFill n\<close> stands for a \<^verbatim>\<open>FillContent\<close> value (declared in
  \<^verbatim>\<open>django_components.slots\<close>, a named tuple that this module never inspects).
\<close>

type_synonym pydict = "string \<rightharpoonup> val"

record heap =
  dict_objs :: "addr \<Rightarrow> pydict"
  dict_next :: addr
  ctx_objs :: "addr \<Rightarrow> addr list"
  ctx_next :: addr

text \<open>
  \<open>dict_objs h a\<close> is the content of the dict object at address \<open>a\<close>,
  \<open>ctx_objs h c\<close> the list \<^verbatim>\<open>dicts\<close> of the Context object at \<open>c\<close> (bottom layer
  first). Addresses below \<open>dict_next\<close> and \<open>ctx_next\<close> are allocated; a new object
  takes the next address.
\<close>

datatype error = KeyError string | IndexError | TypeError | AttributeError

definition bind_err :: "error + 'a \<Rightarrow> ('a \<Rightarrow> error + 'b) \<Rightarrow> error + 'b" where
  "bind_err m f = (case m of Inl e \<Rightarrow> Inl e | Inr x \<Rightarrow> f x)"

definition dict_alloc :: "heap \<Rightarrow> pydict \<Rightarrow> heap \<times> addr" where
  "dict_alloc h d =
     (h\<lparr>dict_objs := (dict_objs h)(dict_next h := d), dict_next := Suc (dict_next h)\<rparr>,
      dict_next h)"

definition dict_setitem :: "heap \<Rightarrow> addr \<Rightarrow> string \<Rightarrow> val \<Rightarrow> heap" where
  "dict_setitem h a k v = h\<lparr>dict_objs := (dict_objs h)(a := (dict_objs h a)(k \<mapsto> v))\<rparr>"

text \<open>Python truth value of an object (\<^verbatim>\<open>not x\<close> is its negation).\<close>

fun truthy :: "heap \<Rightarrow> val \<Rightarrow> bool" where
  "truthy h VNone = False"
| "truthy h (VBool b) = b"
| "truthy h (VInt i) = (i \<noteq> 0)"
| "truthy h (VStr s) = (s \<noteq> [])"
| "truthy h (VDict a) = (dict_objs h a \<noteq> Map.empty)"
| "truthy h (VCtx c) = True"
| "truthy h (VFill n) = True"


section \<open>Django's Context\<close>

text \<open>
  \<^verbatim>\<open>django.template.Context\<close> is a library class. The operations the module calls
  are modelled with the library's behaviour:
  \<^item> a new Context has one layer, the builtins \<^verbatim>\<open>{"True": True, "False": False, "None": None}\<close>;
  \<^item> \<^verbatim>\<open>key in context\<close> is true when any layer has the key;
  \<^item> \<^verbatim>\<open>context[key]\<close> and \<^verbatim>\<open>context.get(key, default)\<close> search the layers from the
    last to the first; the former raises \<^verbatim>\<open>KeyError\<close> when no layer has the key;
  \<^item> \<^verbatim>\<open>context[key] = value\<close> writes into the last layer, \<^verbatim>\<open>context.dicts[-1]\<close>;
  \<^item> \<^verbatim>\<open>context.push(d)\<close> and \<^verbatim>\<open>context.update(d)\<close> build a new \<^verbatim>\<open>ContextDict\<close> from
    \<^verbatim>\<open>d\<close> (a dict subclass, so a copy of \<^verbatim>\<open>d\<close>) and append it to \<^verbatim>\<open>context.dicts\<close>;
  \<^item> \<^verbatim>\<open>context.new()\<close> is a copy of the context with \<^verbatim>\<open>dicts\<close> reset to new builtins;
  \<^item> \<^verbatim>\<open>context.flatten()\<close> updates an empty dict with every layer, first to last;
  \<^item> a Context defines neither \<^verbatim>\<open>__bool__\<close> nor \<^verbatim>\<open>__len__\<close>, so it is always true.
\<close>

definition builtins :: pydict where
  "builtins = [''True'' \<mapsto> VBool True, ''False'' \<mapsto> VBool False, ''None'' \<mapsto> VNone]"

definition Context_init :: "heap \<Rightarrow> heap \<times> addr" where
  "Context_init h =
     (let (h1, b) = dict_alloc h builtins
      in (h1\<lparr>ctx_objs := (ctx_objs h1)(ctx_next h1 := [b]), ctx_next := Suc (ctx_next h1)\<rparr>,
          ctx_next h1))"

definition ctx_new :: "heap \<Rightarrow> addr \<Rightarrow> heap \<times> addr" where
  "ctx_new h c = Context_init h"

fun find_key :: "heap \<Rightarrow> addr list \<Rightarrow> string \<Rightarrow> val option" where
  "find_key h [] k = None"
| "find_key h (d # ds) k =
     (case dict_objs h d k of Some v \<Rightarrow> Some v | None \<Rightarrow> find_key h ds k)"

definition ctx_find :: "heap \<Rightarrow> addr \<Rightarrow> string \<Rightarrow> val option" where
  "ctx_find h c k = find_key h (rev (ctx_objs h c)) k"

definition ctx_contains :: "heap \<Rightarrow> addr \<Rightarrow> string \<Rightarrow> bool" where
  "ctx_contains h c k = list_ex (\<lambda>d. dict_objs h d k \<noteq> None) (ctx_objs h c)"

definition ctx_getitem :: "heap \<Rightarrow> addr \<Rightarrow> string \<Rightarrow> error + val" where
  "ctx_getitem h c k = (case ctx_find h c k of Some v \<Rightarrow> Inr v | None \<Rightarrow> Inl (KeyError k))"

definition ctx_get :: "heap \<Rightarrow> addr \<Rightarrow> string \<Rightarrow> val \<Rightarrow> val" where
  "ctx_get h c k otherwise = (case ctx_find h c k of Some v \<Rightarrow> v | None \<Rightarrow> otherwise)"

definition ctx_setitem :: "heap \<Rightarrow> addr \<Rightarrow> string \<Rightarrow> val \<Rightarrow> error + heap" where
  "ctx_setitem h c k v =
     (if ctx_objs h c = [] then Inl IndexError
      else Inr (dict_setitem h (last (ctx_objs h c)) k v))"

definition ctx_push :: "heap \<Rightarrow> addr \<Rightarrow> pydict \<Rightarrow> heap" where
  "ctx_push h c d =
     (let (h1, a) = dict_alloc h d
      in h1\<lparr>ctx_objs := (ctx_objs h1)(c := ctx_objs h1 c @ [a])\<rparr>)"

definition ctx_update :: "heap \<Rightarrow> addr \<Rightarrow> pydict \<Rightarrow> heap" where
  "ctx_update h c d = ctx_push h c d"

text \<open>
  \<^verbatim>\<open>Context.pop()\<close>, with which a caller leaves a nested render: it is
  \<^verbatim>\<open>if len(self.dicts) == 1: raise ContextPopException\<close> followed by
  \<^verbatim>\<open>return self.dicts.pop()\<close>; on an empty list the latter raises.
\<close>

datatype pop_error = ContextPopException | PopFromEmptyList

definition ctx_pop :: "heap \<Rightarrow> addr \<Rightarrow> pop_error + heap" where
  "ctx_pop h c =
     (if length (ctx_objs h c) = 1 then Inl ContextPopException
      else if ctx_objs h c = [] then Inl PopFromEmptyList
      else Inr (h\<lparr>ctx_objs := (ctx_objs h)(c := butlast (ctx_objs h c))\<rparr>))"

definition ctx_flatten :: "heap \<Rightarrow> addr \<Rightarrow> pydict" where
  "ctx_flatten h c = foldl (\<lambda>flat d. flat ++ dict_objs h d) Map.empty (ctx_objs h c)"

text \<open>
  Subscription, \<^verbatim>\<open>.get\<close>, item assignment and \<^verbatim>\<open>.copy()\<close> on the value found under a
  key. The module expects a dict there; a Context supports the first three as well,
  and every other value raises.
\<close>

definition val_getitem :: "heap \<Rightarrow> val \<Rightarrow> string \<Rightarrow> error + val" where
  "val_getitem h x k =
     (case x of
        VDict a \<Rightarrow> (case dict_objs h a k of Some v \<Rightarrow> Inr v | None \<Rightarrow> Inl (KeyError k))
      | VCtx c \<Rightarrow> ctx_getitem h c k
      | _ \<Rightarrow> Inl TypeError)"

definition val_get :: "heap \<Rightarrow> val \<Rightarrow> string \<Rightarrow> val \<Rightarrow> error + val" where
  "val_get h x k otherwise =
     (case x of
        VDict a \<Rightarrow> Inr (case dict_objs h a k of Some v \<Rightarrow> v | None \<Rightarrow> otherwise)
      | VCtx c \<Rightarrow> Inr (ctx_get h c k otherwise)
      | _ \<Rightarrow> Inl AttributeError)"

definition val_setitem :: "heap \<Rightarrow> val \<Rightarrow> string \<Rightarrow> val \<Rightarrow> error + heap" where
  "val_setitem h x k v =
     (case x of
        VDict a \<Rightarrow> Inr (dict_setitem h a k v)
      | VCtx c \<Rightarrow> ctx_setitem h c k v
      | _ \<Rightarrow> Inl TypeError)"

definition val_copy :: "heap \<Rightarrow> val \<Rightarrow> error + heap \<times> addr" where
  "val_copy h x =
     (case x of
        VDict a \<Rightarrow> Inr (dict_alloc h (dict_objs h a))
      | _ \<Rightarrow> Inl AttributeError)"

text \<open>
  \<^verbatim>\<open>xs[i]\<close> for a Python list: an index from \<open>-len(xs)\<close> to \<open>-1\<close> is read from
  the end of the list, and an index outside \<open>-len(xs) \<dots> len(xs) - 1\<close> raises.
\<close>

definition py_index :: "'a list \<Rightarrow> int \<Rightarrow> error + 'a" where
  "py_index xs i =
     (if 0 \<le> i \<and> i < int (length xs) then Inr (xs ! nat i)
      else if i < 0 \<and> - int (length xs) \<le> i then Inr (xs ! nat (int (length xs) + i))
      else Inl IndexError)"


section \<open>The module\<close>

definition FILLED_SLOTS_CONTENT_CONTEXT_KEY :: string where
  "FILLED_SLOTS_CONTENT_CONTEXT_KEY = ''_DJANGO_COMPONENTS_FILLED_SLOTS''"

definition OUTER_ROOT_CTX_CONTEXT_KEY :: string where
  "OUTER_ROOT_CTX_CONTEXT_KEY = ''_DJANGO_COMPONENTS_OUTER_ROOT_CTX''"

definition SLOT_COMPONENT_ASSOC_KEY :: string where
  "SLOT_COMPONENT_ASSOC_KEY = ''_DJANGO_COMPONENTS_SLOT_COMP_ASSOC''"

definition PARENT_COMP_KEY :: string where
  "PARENT_COMP_KEY = ''_DJANGO_COMPONENTS_PARENT_COMP''"

definition CURRENT_COMP_KEY :: string where
  "CURRENT_COMP_KEY = ''_DJANGO_COMPONENTS_CURRENT_COMP''"

text \<open>
  Modelled from the spec: the enumeration \<^verbatim>\<open>SlotContextBehavior\<close> and the setting
  \<^verbatim>\<open>app_settings.SLOT_CONTEXT_BEHAVIOR\<close> are declared in
  \<^verbatim>\<open>django_components.app_settings\<close>, which is not among the sources. The spec
  names the configuration value \<open>isolation_policy\<close> with the options \<open>DEFAULT\<close> and
  \<open>ISOLATED\<close>; the module only compares it with \<open>ISOLATED\<close>. The setting is a
  parameter of the functions that read it.
\<close>

datatype SlotContextBehavior = DEFAULT | ISOLATED

text \<open>
  Modelled from the spec: \<^verbatim>\<open>find_last_index\<close> is imported from
  \<^verbatim>\<open>django_components.utils\<close>, which is not among the sources. Following its name
  and the spec (the layer located is the deepest one that carries the marker, the
  innermost loop being the last one pushed), it returns the highest index whose
  element satisfies the predicate, and \<open>-1\<close> when there is none.
\<close>

fun find_last_index :: "'a list \<Rightarrow> ('a \<Rightarrow> bool) \<Rightarrow> int" where
  "find_last_index [] predicate = - 1"
| "find_last_index (x # xs) predicate =
     (let r = find_last_index xs predicate
      in if 0 \<le> r then r + 1 else if predicate x then 0 else - 1)"

text \<open>
  The calls of \<^verbatim>\<open>trace_msg\<close> only write to the log and are left out.
\<close>

definition set_component_id :: "heap \<Rightarrow> addr \<Rightarrow> string \<Rightarrow> error + heap" where
  "set_component_id h context component_id =
     bind_err (ctx_setitem h context PARENT_COMP_KEY (ctx_get h context CURRENT_COMP_KEY VNone))
       (\<lambda>h1. ctx_setitem h1 context CURRENT_COMP_KEY (VStr component_id))"

definition slot_key :: "string \<Rightarrow> string \<Rightarrow> string" where
  "slot_key component_id slot_name = component_id @ ''__'' @ slot_name"

definition get_slot_fill :: "heap \<Rightarrow> addr \<Rightarrow> string \<Rightarrow> string \<Rightarrow> error + val \<times> heap" where
  "get_slot_fill h context component_id slot_name =
     bind_err (ctx_getitem h context FILLED_SLOTS_CONTENT_CONTEXT_KEY)
       (\<lambda>fills. bind_err (val_get h fills (slot_key component_id slot_name) VNone)
          (\<lambda>v. Inr (v, h)))"

definition set_slot_fill :: "heap \<Rightarrow> addr \<Rightarrow> string \<Rightarrow> string \<Rightarrow> val \<Rightarrow> error + heap" where
  "set_slot_fill h context component_id slot_name v =
     bind_err (ctx_getitem h context FILLED_SLOTS_CONTENT_CONTEXT_KEY)
       (\<lambda>fills. val_setitem h fills (slot_key component_id slot_name) v)"

definition get_outer_root_context :: "heap \<Rightarrow> addr \<Rightarrow> val \<times> heap" where
  "get_outer_root_context h context = (ctx_get h context OUTER_ROOT_CTX_CONTEXT_KEY VNone, h)"

definition set_outer_root_context ::
  "SlotContextBehavior \<Rightarrow> heap \<Rightarrow> addr \<Rightarrow> addr option \<Rightarrow> error + heap" where
  "set_outer_root_context SLOT_CONTEXT_BEHAVIOR h context outer_ctx =
     (let (h1, outer_root_context) =
        (case outer_ctx of
           None \<Rightarrow> Context_init h
         | Some oc \<Rightarrow>
             if \<not> truthy h (ctx_get h context PARENT_COMP_KEY VNone)
                \<and> SLOT_CONTEXT_BEHAVIOR = ISOLATED
                \<and> ctx_contains h context OUTER_ROOT_CTX_CONTEXT_KEY
             then (let (h', r) = ctx_new h oc in (ctx_push h' r (ctx_flatten h' oc), r))
             else if length (ctx_objs h oc) > 1
             then (let (h', r) = ctx_new h oc
                   in (ctx_push h' r (dict_objs h' (ctx_objs h' oc ! 1)), r))
             else Context_init h)
      in bind_err
           (if ctx_contains h1 context SLOT_COMPONENT_ASSOC_KEY
            then bind_err (ctx_getitem h1 context SLOT_COMPONENT_ASSOC_KEY)
                   (\<lambda>v. ctx_setitem h1 outer_root_context SLOT_COMPONENT_ASSOC_KEY v)
            else Inr h1)
           (\<lambda>h2. bind_err
              (if ctx_contains h2 context FILLED_SLOTS_CONTENT_CONTEXT_KEY
               then bind_err (ctx_getitem h2 context FILLED_SLOTS_CONTENT_CONTEXT_KEY)
                      (\<lambda>v. ctx_setitem h2 outer_root_context FILLED_SLOTS_CONTENT_CONTEXT_KEY v)
               else Inr h2)
              (\<lambda>h3. ctx_setitem h3 context OUTER_ROOT_CTX_CONTEXT_KEY (VCtx outer_root_context))))"

definition prepare_context ::
  "SlotContextBehavior \<Rightarrow> heap \<Rightarrow> addr \<Rightarrow> addr option \<Rightarrow> string \<Rightarrow> error + heap" where
  "prepare_context SLOT_CONTEXT_BEHAVIOR h context outer_context component_id =
     bind_err
       (case outer_context of
          Some oc \<Rightarrow> set_outer_root_context SLOT_CONTEXT_BEHAVIOR h context (Some oc)
        | None \<Rightarrow> Inr h)
       (\<lambda>h1. bind_err
          (if \<not> ctx_contains h1 context SLOT_COMPONENT_ASSOC_KEY
           then (let (h', a) = dict_alloc h1 Map.empty
                 in ctx_setitem h' context SLOT_COMPONENT_ASSOC_KEY (VDict a))
           else Inr h1)
          (\<lambda>h2. bind_err
             (if \<not> ctx_contains h2 context FILLED_SLOTS_CONTENT_CONTEXT_KEY
              then (let (h', a) = dict_alloc h2 Map.empty
                    in ctx_setitem h' context FILLED_SLOTS_CONTENT_CONTEXT_KEY (VDict a))
              else Inr h2)
             (\<lambda>h3. bind_err
                (if ctx_contains h3 context ''forloop''
                 then bind_err (ctx_getitem h3 context SLOT_COMPONENT_ASSOC_KEY)
                        (\<lambda>assoc. bind_err (val_copy h3 assoc)
                           (\<lambda>(h', a). bind_err (py_index (ctx_objs h' context) (- 1))
                              (\<lambda>latest_dict.
                                 Inr (dict_setitem h' latest_dict SLOT_COMPONENT_ASSOC_KEY (VDict a)))))
                 else Inr h3)
                (\<lambda>h4. set_component_id h4 context component_id))))"

text \<open>
  In \<^verbatim>\<open>set_slot_component_association\<close> the slot and component ids are strings;
  the last statement looks the map up again through the context, so it writes into
  the copy when one was just made.
\<close>

definition set_slot_component_association ::
  "heap \<Rightarrow> addr \<Rightarrow> string \<Rightarrow> string \<Rightarrow> error + heap" where
  "set_slot_component_association h context slot_id component_id =
     bind_err (py_index (ctx_objs h context) (- 1))
       (\<lambda>latest_dict. bind_err
          (if dict_objs h latest_dict SLOT_COMPONENT_ASSOC_KEY = None
           then bind_err (ctx_getitem h context SLOT_COMPONENT_ASSOC_KEY)
                  (\<lambda>assoc. bind_err (val_copy h assoc)
                     (\<lambda>(h', a). Inr (dict_setitem h' latest_dict SLOT_COMPONENT_ASSOC_KEY (VDict a))))
           else Inr h)
          (\<lambda>h1. bind_err (ctx_getitem h1 context SLOT_COMPONENT_ASSOC_KEY)
             (\<lambda>assoc. val_setitem h1 assoc slot_id (VStr component_id))))"

definition get_slot_component_association ::
  "heap \<Rightarrow> addr \<Rightarrow> string \<Rightarrow> error + val \<times> heap" where
  "get_slot_component_association h context slot_id =
     bind_err (ctx_getitem h context SLOT_COMPONENT_ASSOC_KEY)
       (\<lambda>assoc. bind_err (val_getitem h assoc slot_id) (\<lambda>v. Inr (v, h)))"

definition copy_forloop_context :: "heap \<Rightarrow> addr \<Rightarrow> addr \<Rightarrow> error + heap" where
  "copy_forloop_context h from_context to_context =
     (if ctx_contains h from_context ''forloop''
      then (let forloop_dict_index =
                  find_last_index (ctx_objs h from_context) (\<lambda>d. dict_objs h d ''forloop'' \<noteq> None)
            in bind_err (py_index (ctx_objs h from_context) forloop_dict_index)
                 (\<lambda>d. Inr (ctx_update h to_context (dict_objs h d))))
      else Inr h)"


section \<open>Auxiliary definitions for the proofs\<close>

text \<open>A sequence of \<^verbatim>\<open>set_slot_fill\<close> calls on one context, as a render pass makes them.\<close>

fun set_slot_fills :: "heap \<Rightarrow> addr \<Rightarrow> (string \<times> string \<times> val) list \<Rightarrow> error + heap" where
  "set_slot_fills h context [] = Inr h"
| "set_slot_fills h context ((component_id, slot_name, v) # rest) =
     bind_err (set_slot_fill h context component_id slot_name v)
       (\<lambda>h1. set_slot_fills h1 context rest)"

text \<open>A string with two consecutive underscores; every composite fill key has them.\<close>

fun has_dunder :: "string \<Rightarrow> bool" where
  "has_dunder (x # y # zs) = ((x = CHR ''_'' \<and> y = CHR ''_'') \<or> has_dunder (y # zs))"
| "has_dunder zs = False"

text \<open>
  A context is live in a heap when the context and its layers are allocated objects
  and it has at least one layer, as every Context that Python code can hold does.
\<close>

definition ctx_live :: "heap \<Rightarrow> addr \<Rightarrow> bool" where
  "ctx_live h c \<longleftrightarrow>
     c < ctx_next h \<and> ctx_objs h c \<noteq> [] \<and> list_all (\<lambda>d. d < dict_next h) (ctx_objs h c)"

text \<open>Concrete heaps: the dict objects and the contexts are listed by address.\<close>

definition mk_heap :: "pydict list \<Rightarrow> addr list list \<Rightarrow> heap" where
  "mk_heap ds cs =
     \<lparr>dict_objs = (\<lambda>a. if a < length ds then ds ! a else Map.empty),
      dict_next = length ds,
      ctx_objs = (\<lambda>c. if c < length cs then cs ! c else []),
      ctx_next = length cs\<rparr>"

text \<open>
  \<open>ex_first\<close>: context \<open>0\<close> is the outer scope \<^verbatim>\<open>[defaults, {a: 1}, {b: 2}]\<close> of the
  spec's examples, context \<open>1\<close> the scope of a component about to render for the first
  time, with nothing of the module's state in it.
\<close>

definition ex_first :: heap where
  "ex_first =
     mk_heap [builtins, [''a'' \<mapsto> VInt 1], [''b'' \<mapsto> VInt 2], builtins, Map.empty]
             [[0, 1, 2], [3, 4]]"

text \<open>
  \<open>ex_rendering\<close>: the same outer scope, and as context \<open>1\<close> a scope in which a
  render pass is under way: its layer \<open>4\<close> holds the association map (dict \<open>6\<close>, with
  one binding), the fill registry (dict \<open>7\<close>) and an earlier outer root context
  (context \<open>2\<close>); its last layer \<open>5\<close> is new and empty.
\<close>

definition ex_rendering :: heap where
  "ex_rendering =
     mk_heap [builtins, [''a'' \<mapsto> VInt 1], [''b'' \<mapsto> VInt 2], builtins,
              [SLOT_COMPONENT_ASSOC_KEY \<mapsto> VDict 6,
               FILLED_SLOTS_CONTENT_CONTEXT_KEY \<mapsto> VDict 7,
               OUTER_ROOT_CTX_CONTEXT_KEY \<mapsto> VCtx 2],
              Map.empty,
              [''slot1'' \<mapsto> VStr ''comp1''],
              Map.empty,
              builtins]
             [[0, 1, 2], [3, 4, 5], [8]]"

text \<open>
  \<open>ex_loop\<close>: context \<open>0\<close> is inside two nested loops: layer \<open>2\<close> was pushed by the
  outer loop and layer \<open>3\<close> by the inner one, each with the marker and its loop
  variable; layer \<open>1\<close> holds the association map (dict \<open>5\<close>) and the fill registry
  (dict \<open>6\<close>). Context \<open>1\<close> is a new context.
\<close>

definition ex_loop :: heap where
  "ex_loop =
     mk_heap [builtins,
              [SLOT_COMPONENT_ASSOC_KEY \<mapsto> VDict 5, FILLED_SLOTS_CONTENT_CONTEXT_KEY \<mapsto> VDict 6],
              [''forloop'' \<mapsto> VInt 0, ''row'' \<mapsto> VStr ''r''],
              [''forloop'' \<mapsto> VInt 1, ''cell'' \<mapsto> VStr ''c''],
              builtins,
              [''slot1'' \<mapsto> VStr ''comp1''],
              Map.empty]
             [[0, 1, 2, 3], [4]]"



text \<open>
  The effect of the two statements under "Include the mappings" on the content \<open>d\<close> of
  the last layer of the new outer root context: the association map and the fill
  registry visible in context \<open>c\<close>, when present, are bound under their keys.
\<close>

definition with_mappings :: "heap \<Rightarrow> addr \<Rightarrow> pydict \<Rightarrow> pydict" where
  "with_mappings h c d =
     (let d1 = (case ctx_find h c SLOT_COMPONENT_ASSOC_KEY of
                  None \<Rightarrow> d | Some v \<Rightarrow> d(SLOT_COMPONENT_ASSOC_KEY \<mapsto> v))
      in case ctx_find h c FILLED_SLOTS_CONTENT_CONTEXT_KEY of
           None \<Rightarrow> d1 | Some v \<Rightarrow> d1(FILLED_SLOTS_CONTENT_CONTEXT_KEY \<mapsto> v))"

text \<open>
  \<^verbatim>\<open>set_outer_root_context\<close> in two halves, for the proofs: \<open>root_base\<close> is its
  \<^verbatim>\<open>if\<close>/\<^verbatim>\<open>elif\<close>/\<^verbatim>\<open>else\<close> statement, which builds the new context, and
  \<open>root_store\<close> is the rest, which includes the mappings and stores the context.
\<close>

definition root_base :: "SlotContextBehavior \<Rightarrow> heap \<Rightarrow> addr \<Rightarrow> addr option \<Rightarrow> heap \<times> addr" where
  "root_base SLOT_CONTEXT_BEHAVIOR h context outer_ctx =
     (case outer_ctx of
        None \<Rightarrow> Context_init h
      | Some oc \<Rightarrow>
          if \<not> truthy h (ctx_get h context PARENT_COMP_KEY VNone)
             \<and> SLOT_CONTEXT_BEHAVIOR = ISOLATED
             \<and> ctx_contains h context OUTER_ROOT_CTX_CONTEXT_KEY
          then (let (h', r) = ctx_new h oc in (ctx_push h' r (ctx_flatten h' oc), r))
          else if length (ctx_objs h oc) > 1
          then (let (h', r) = ctx_new h oc
                in (ctx_push h' r (dict_objs h' (ctx_objs h' oc ! 1)), r))
          else Context_init h)"

definition root_store :: "heap \<Rightarrow> addr \<Rightarrow> addr \<Rightarrow> error + heap" where
  "root_store h1 context outer_root_context =
     bind_err
       (if ctx_contains h1 context SLOT_COMPONENT_ASSOC_KEY
        then bind_err (ctx_getitem h1 context SLOT_COMPONENT_ASSOC_KEY)
               (\<lambda>v. ctx_setitem h1 outer_root_context SLOT_COMPONENT_ASSOC_KEY v)
        else Inr h1)
       (\<lambda>h2. bind_err
          (if ctx_contains h2 context FILLED_SLOTS_CONTENT_CONTEXT_KEY
           then bind_err (ctx_getitem h2 context FILLED_SLOTS_CONTENT_CONTEXT_KEY)
                  (\<lambda>v. ctx_setitem h2 outer_root_context FILLED_SLOTS_CONTENT_CONTEXT_KEY v)
           else Inr h2)
          (\<lambda>h3. ctx_setitem h3 context OUTER_ROOT_CTX_CONTEXT_KEY (VCtx outer_root_context)))"

text \<open>
  \<open>fresh_root h h1 r\<close>: heap \<open>h1\<close> extends \<open>h\<close> by new objects only, among them the
  context \<open>r\<close>, whose last layer is new as well.
\<close>

definition fresh_root :: "heap \<Rightarrow> heap \<Rightarrow> addr \<Rightarrow> bool" where
  "fresh_root h h1 r \<longleftrightarrow>
     ctx_next h \<le> ctx_next h1 \<and> dict_next h \<le> dict_next h1 \<and>
     (\<forall>x. x < ctx_next h \<longrightarrow> ctx_objs h1 x = ctx_objs h x) \<and>
     (\<forall>d. d < dict_next h \<longrightarrow> dict_objs h1 d = dict_objs h d) \<and>
     ctx_objs h1 r \<noteq> [] \<and> dict_next h \<le> last (ctx_objs h1 r) \<and> ctx_next h \<le> r"

text \<open>
  \<open>writes_top K c h h'\<close>: from \<open>h\<close> to \<open>h'\<close> objects were allocated and keys of \<open>K\<close>
  were written in the last layer of context \<open>c\<close>; the context keeps its layers, and
  every other dict allocated in \<open>h\<close> keeps its content.
\<close>

definition writes_top :: "string set \<Rightarrow> addr \<Rightarrow> heap \<Rightarrow> heap \<Rightarrow> bool" where
  "writes_top K c h h' \<longleftrightarrow>
     ctx_objs h' c = ctx_objs h c \<and> dict_next h \<le> dict_next h' \<and> ctx_next h \<le> ctx_next h' \<and>
     (\<forall>d. d < dict_next h \<and> d \<noteq> last (ctx_objs h c) \<longrightarrow> dict_objs h' d = dict_objs h d) \<and>
     (\<forall>k. k \<notin> K \<longrightarrow>
        dict_objs h' (last (ctx_objs h c)) k = dict_objs h (last (ctx_objs h c)) k)"

text \<open>What the outer root context stored in context \<open>c\<close> exposes for key \<open>k\<close>.\<close>

definition outer_root_find :: "heap \<Rightarrow> addr \<Rightarrow> string \<Rightarrow> val option" where
  "outer_root_find h c k =
     (case ctx_find h c OUTER_ROOT_CTX_CONTEXT_KEY of
        Some (VCtx r) \<Rightarrow> ctx_find h r k
      | _ \<Rightarrow> None)"


section \<open>Lookup in a context\<close>

lemma find_key_None_iff:
  "find_key h ds k = None \<longleftrightarrow> (\<forall>d\<in>set ds. dict_objs h d k = None)"
  by (induction ds) (auto split: option.splits)

lemma ctx_contains_find: "ctx_contains h c k \<longleftrightarrow> ctx_find h c k \<noteq> None"
  by (simp add: ctx_contains_def ctx_find_def find_key_None_iff list_ex_iff)

lemma find_key_cong:
  "(\<And>d. d \<in> set ds \<Longrightarrow> dict_objs h' d k = dict_objs h d k) \<Longrightarrow>
   find_key h' ds k = find_key h ds k"
  by (induction ds) (auto split: option.splits)

lemma ctx_find_cong:
  assumes "ctx_objs h' c = ctx_objs h c"
    and "\<And>d. d \<in> set (ctx_objs h c) \<Longrightarrow> dict_objs h' d k = dict_objs h d k"
  shows "ctx_find h' c k = ctx_find h c k"
proof -
  have "find_key h' (rev (ctx_objs h c)) k = find_key h (rev (ctx_objs h c)) k"
    by (rule find_key_cong) (simp add: assms(2))
  then show ?thesis by (simp add: ctx_find_def assms(1))
qed

lemma ctx_find_dict_setitem_other:
  "k \<noteq> k' \<Longrightarrow> ctx_find (dict_setitem h a k' v) c k = ctx_find h c k"
  by (rule ctx_find_cong) (auto simp: dict_setitem_def)


section \<open>The fill accessors\<close>

text \<open>
  Claim C10. \<^verbatim>\<open>get_slot_fill\<close> and \<^verbatim>\<open>set_slot_fill\<close> both start with
  \<^verbatim>\<open>context[_FILLED_SLOTS_CONTENT_CONTEXT_KEY]\<close>. In a scope in which no layer has
  that key, both raise \<^verbatim>\<open>KeyError\<close> for it: neither returns "not found", and
  neither creates the registry. The key is put there by \<^verbatim>\<open>prepare_context\<close>.
\<close>

theorem fill_accessors_need_registry:
  assumes "\<not> ctx_contains h context FILLED_SLOTS_CONTENT_CONTEXT_KEY"
  shows "get_slot_fill h context component_id slot_name
           = Inl (KeyError FILLED_SLOTS_CONTENT_CONTEXT_KEY)
       \<and> set_slot_fill h context component_id slot_name v
           = Inl (KeyError FILLED_SLOTS_CONTENT_CONTEXT_KEY)"
  using assms
  by (simp add: ctx_contains_find get_slot_fill_def set_slot_fill_def ctx_getitem_def
      bind_err_def)

lemma ex_first_no_registry: "\<not> ctx_contains ex_first 1 FILLED_SLOTS_CONTENT_CONTEXT_KEY"
  by (simp add: ctx_contains_def ex_first_def mk_heap_def builtins_def
      FILLED_SLOTS_CONTENT_CONTEXT_KEY_def)

theorem fill_accessors_need_registry_witness:
  "\<not> ctx_contains ex_first 1 FILLED_SLOTS_CONTENT_CONTEXT_KEY
   \<and> get_slot_fill ex_first 1 ''comp1'' ''header''
       = Inl (KeyError FILLED_SLOTS_CONTENT_CONTEXT_KEY)
   \<and> set_slot_fill ex_first 1 ''comp1'' ''header'' (VFill 0)
       = Inl (KeyError FILLED_SLOTS_CONTENT_CONTEXT_KEY)"
  using fill_accessors_need_registry [OF ex_first_no_registry, of "''comp1''" "''header''" "VFill 0"]
    ex_first_no_registry
  by simp

lemma has_dunder_slot_key: "has_dunder (slot_key component_id slot_name)"
  unfolding slot_key_def
proof (induction component_id)
  case Nil
  show ?case by simp
next
  case (Cons x xs)
  show ?case
  proof (cases xs)
    case Nil
    then show ?thesis by simp
  next
    case (Cons y ys)
    with Cons.IH show ?thesis by simp
  qed
qed

lemma registry_key_no_dunder: "\<not> has_dunder FILLED_SLOTS_CONTENT_CONTEXT_KEY"
  by (simp add: FILLED_SLOTS_CONTENT_CONTEXT_KEY_def)

lemma slot_key_not_registry_key:
  "FILLED_SLOTS_CONTENT_CONTEXT_KEY \<noteq> slot_key component_id slot_name"
  using has_dunder_slot_key [of component_id slot_name] registry_key_no_dunder by auto

lemma set_slot_fill_registry:
  assumes "ctx_find h context FILLED_SLOTS_CONTENT_CONTEXT_KEY = Some (VDict a)"
  shows "set_slot_fill h context component_id slot_name v
           = Inr (dict_setitem h a (slot_key component_id slot_name) v)"
  using assms by (simp add: set_slot_fill_def ctx_getitem_def bind_err_def val_setitem_def)

lemma get_slot_fill_registry:
  assumes "ctx_find h context FILLED_SLOTS_CONTENT_CONTEXT_KEY = Some (VDict a)"
  shows "get_slot_fill h context component_id slot_name
           = Inr (case dict_objs h a (slot_key component_id slot_name) of
                    Some v \<Rightarrow> v | None \<Rightarrow> VNone, h)"
  using assms by (simp add: get_slot_fill_def ctx_getitem_def bind_err_def val_get_def)

lemma registry_after_setitem:
  assumes "ctx_find h context FILLED_SLOTS_CONTENT_CONTEXT_KEY = Some (VDict a)"
  shows "ctx_find (dict_setitem h b (slot_key component_id slot_name) v) context
           FILLED_SLOTS_CONTENT_CONTEXT_KEY = Some (VDict a)"
  using assms slot_key_not_registry_key by (simp add: ctx_find_dict_setitem_other)

text \<open>
  Claim C9. The composite fill key \<^verbatim>\<open>f"{component_id}__{slot_name}"\<close> is not
  injective: the distinct pairs \<open>(''a'', ''b__c'')\<close> and \<open>(''a__b'', ''c'')\<close> give the same
  key. In every scope whose registry is visible, after
  \<^verbatim>\<open>set_slot_fill(scope, "a__b", "c", v)\<close> the call
  \<^verbatim>\<open>get_slot_fill(scope, "a", "b__c")\<close> returns \<open>v\<close>, not "not found".
\<close>

theorem slot_key_collision:
  assumes "ctx_find h context FILLED_SLOTS_CONTENT_CONTEXT_KEY = Some (VDict a)"
  shows "(''a'', ''b__c'') \<noteq> (''a__b'', ''c'')
       \<and> slot_key ''a'' ''b__c'' = slot_key ''a__b'' ''c''
       \<and> set_slot_fill h context ''a__b'' ''c'' v
           = Inr (dict_setitem h a (slot_key ''a__b'' ''c'') v)
       \<and> get_slot_fill (dict_setitem h a (slot_key ''a__b'' ''c'') v) context ''a'' ''b__c''
           = Inr (v, dict_setitem h a (slot_key ''a__b'' ''c'') v)"
proof -
  let ?h' = "dict_setitem h a (slot_key ''a__b'' ''c'') v"
  have k: "slot_key ''a'' ''b__c'' = slot_key ''a__b'' ''c''"
    by (simp add: slot_key_def)
  have s: "set_slot_fill h context ''a__b'' ''c'' v = Inr ?h'"
    by (rule set_slot_fill_registry [OF assms])
  have f: "ctx_find ?h' context FILLED_SLOTS_CONTENT_CONTEXT_KEY = Some (VDict a)"
    by (rule registry_after_setitem [OF assms])
  have g: "get_slot_fill ?h' context ''a'' ''b__c'' = Inr (v, ?h')"
    by (simp add: get_slot_fill_registry [OF f] k) (simp add: dict_setitem_def)
  show ?thesis using k s g by simp
qed

lemma ex_rendering_registry:
  "ctx_find ex_rendering 1 FILLED_SLOTS_CONTENT_CONTEXT_KEY = Some (VDict 7)"
  by (simp add: ctx_find_def ex_rendering_def mk_heap_def FILLED_SLOTS_CONTENT_CONTEXT_KEY_def
      SLOT_COMPONENT_ASSOC_KEY_def OUTER_ROOT_CTX_CONTEXT_KEY_def)

theorem slot_key_collision_witness:
  "ctx_find ex_rendering 1 FILLED_SLOTS_CONTENT_CONTEXT_KEY = Some (VDict 7)
   \<and> set_slot_fill ex_rendering 1 ''a__b'' ''c'' (VFill 5)
       = Inr (dict_setitem ex_rendering 7 (slot_key ''a__b'' ''c'') (VFill 5))
   \<and> get_slot_fill (dict_setitem ex_rendering 7 (slot_key ''a__b'' ''c'') (VFill 5)) 1 ''a'' ''b__c''
       = Inr (VFill 5, dict_setitem ex_rendering 7 (slot_key ''a__b'' ''c'') (VFill 5))"
  using slot_key_collision [OF ex_rendering_registry, of "VFill 5"] ex_rendering_registry
  by simp

lemma set_slot_fills_absent:
  assumes "ctx_find h context FILLED_SLOTS_CONTENT_CONTEXT_KEY = Some (VDict a)"
    and "dict_objs h a k = None"
    and "list_all (\<lambda>(c, s, v). slot_key c s \<noteq> k) fills"
  shows "\<exists>h'. set_slot_fills h context fills = Inr h'
           \<and> ctx_find h' context FILLED_SLOTS_CONTENT_CONTEXT_KEY = Some (VDict a)
           \<and> dict_objs h' a k = None"
  using assms
proof (induction fills arbitrary: h)
  case Nil
  then show ?case by simp
next
  case (Cons f fills)
  obtain c s v where f: "f = (c, s, v)" by (cases f) auto
  let ?h1 = "dict_setitem h a (slot_key c s) v"
  have ne: "slot_key c s \<noteq> k" using Cons.prems(3) f by simp
  have s1: "set_slot_fill h context c s v = Inr ?h1"
    by (rule set_slot_fill_registry [OF Cons.prems(1)])
  have r1: "ctx_find ?h1 context FILLED_SLOTS_CONTENT_CONTEXT_KEY = Some (VDict a)"
    by (rule registry_after_setitem [OF Cons.prems(1)])
  have d1: "dict_objs ?h1 a k = None"
    using Cons.prems(2) ne by (simp add: dict_setitem_def)
  have rest: "list_all (\<lambda>(c, s, v). slot_key c s \<noteq> k) fills"
    using Cons.prems(3) by simp
  from Cons.IH [OF r1 d1 rest] show ?case
    by (simp add: f s1 bind_err_def)
qed

lemma get_slot_fill_heap:
  "get_slot_fill g scope cid name = Inr (r, g') \<Longrightarrow> g' = g"
  by (auto simp: get_slot_fill_def bind_err_def split: sum.splits)

text \<open>
  Claim C7. Let the filled-slots registry be initialised in the scope (the registry
  key is visible and bound to a dict) with nothing stored under the composite key of
  \<open>component_id\<close> and \<open>slot_name\<close>, as after its creation. After any sequence of
  \<^verbatim>\<open>set_slot_fill\<close> calls, none with that composite key, every call succeeds and
  \<^verbatim>\<open>get_slot_fill\<close> returns \<^verbatim>\<open>None\<close> without raising.

  Lookup is idempotent whatever it finds: a call of \<^verbatim>\<open>get_slot_fill\<close> that returns,
  with a fill or with \<^verbatim>\<open>None\<close>, returns the heap it was given, so the same call made
  again, with no \<^verbatim>\<open>set_slot_fill\<close> between the two, returns the same result.
\<close>

theorem get_slot_fill_not_found:
  "(ctx_find h context FILLED_SLOTS_CONTENT_CONTEXT_KEY = Some (VDict a)
      \<and> dict_objs h a (slot_key component_id slot_name) = None
      \<and> list_all (\<lambda>(c, s, v). slot_key c s \<noteq> slot_key component_id slot_name) fills
    \<longrightarrow> (\<exists>h'. set_slot_fills h context fills = Inr h'
           \<and> get_slot_fill h' context component_id slot_name = Inr (VNone, h')))
   \<and> (get_slot_fill g scope cid name = Inr (r, g')
    \<longrightarrow> g' = g \<and> get_slot_fill g' scope cid name = Inr (r, g'))"
proof (intro conjI impI)
  assume pre: "ctx_find h context FILLED_SLOTS_CONTENT_CONTEXT_KEY = Some (VDict a)
      \<and> dict_objs h a (slot_key component_id slot_name) = None
      \<and> list_all (\<lambda>(c, s, v). slot_key c s \<noteq> slot_key component_id slot_name) fills"
  from pre have p1: "ctx_find h context FILLED_SLOTS_CONTENT_CONTEXT_KEY = Some (VDict a)"
    and p2: "dict_objs h a (slot_key component_id slot_name) = None"
    and p3: "list_all (\<lambda>(c, s, v). slot_key c s \<noteq> slot_key component_id slot_name) fills"
    by simp_all
  from set_slot_fills_absent [OF p1 p2 p3] obtain h' where
    h': "set_slot_fills h context fills = Inr h'"
      "ctx_find h' context FILLED_SLOTS_CONTENT_CONTEXT_KEY = Some (VDict a)"
      "dict_objs h' a (slot_key component_id slot_name) = None"
    by blast
  have "get_slot_fill h' context component_id slot_name = Inr (VNone, h')"
    by (simp add: get_slot_fill_registry [OF h'(2)] h'(3))
  with h'(1) show "\<exists>h'. set_slot_fills h context fills = Inr h'
           \<and> get_slot_fill h' context component_id slot_name = Inr (VNone, h')"
    by blast
next
  assume "get_slot_fill g scope cid name = Inr (r, g')"
  then show "g' = g" by (rule get_slot_fill_heap)
next
  assume q: "get_slot_fill g scope cid name = Inr (r, g')"
  then have "g' = g" by (rule get_slot_fill_heap)
  with q show "get_slot_fill g' scope cid name = Inr (r, g')" by simp
qed

lemma ex_rendering_no_header:
  "dict_objs ex_rendering 7 (slot_key ''comp1'' ''footer'') = None"
  by (simp add: ex_rendering_def mk_heap_def)

lemma ex_rendering_hit:
  "get_slot_fill (dict_setitem ex_rendering 7 (slot_key ''comp1'' ''header'') (VFill 1)) 1
       ''comp1'' ''header''
     = Inr (VFill 1, dict_setitem ex_rendering 7 (slot_key ''comp1'' ''header'') (VFill 1))"
proof -
  let ?g = "dict_setitem ex_rendering 7 (slot_key ''comp1'' ''header'') (VFill 1)"
  have f: "ctx_find ?g 1 FILLED_SLOTS_CONTENT_CONTEXT_KEY = Some (VDict 7)"
    by (rule registry_after_setitem [OF ex_rendering_registry])
  have d: "dict_objs ?g 7 (slot_key ''comp1'' ''header'') = Some (VFill 1)"
    by (simp add: dict_setitem_def)
  show ?thesis
    unfolding get_slot_fill_registry [OF f] by (simp only: d option.case)
qed

theorem get_slot_fill_not_found_witness:
  "(\<exists>h'. set_slot_fills ex_rendering 1
            [(''comp1'', ''header'', VFill 1), (''comp2'', ''footer'', VFill 2)] = Inr h'
        \<and> get_slot_fill h' 1 ''comp1'' ''footer'' = Inr (VNone, h'))
   \<and> get_slot_fill (dict_setitem ex_rendering 7 (slot_key ''comp1'' ''header'') (VFill 1)) 1
         ''comp1'' ''header''
       = Inr (VFill 1, dict_setitem ex_rendering 7 (slot_key ''comp1'' ''header'') (VFill 1))"
proof -
  let ?fills = "[(''comp1'', ''header'', VFill 1), (''comp2'', ''footer'', VFill 2)]"
  let ?g = "dict_setitem ex_rendering 7 (slot_key ''comp1'' ''header'') (VFill 1)"
  have l: "list_all (\<lambda>(c, s, v). slot_key c s \<noteq> slot_key ''comp1'' ''footer'') ?fills"
    by (simp add: slot_key_def)
  note t = get_slot_fill_not_found [of ex_rendering 1 7 "''comp1''" "''footer''" ?fills
      ?g 1 "''comp1''" "''header''" "VFill 1" ?g]
  from t ex_rendering_registry ex_rendering_no_header l
  have a: "\<exists>h'. set_slot_fills ex_rendering 1 ?fills = Inr h'
        \<and> get_slot_fill h' 1 ''comp1'' ''footer'' = Inr (VNone, h')"
    by blast
  from t ex_rendering_hit
  have b: "get_slot_fill ?g 1 ''comp1'' ''header'' = Inr (VFill 1, ?g)"
    by blast
  from a b show ?thesis by blast
qed


section \<open>The slot to component associations\<close>

text \<open>
  Claim C6. \<^verbatim>\<open>get_slot_component_association\<close> evaluates
  \<^verbatim>\<open>context[_SLOT_COMPONENT_ASSOC_KEY][slot_id]\<close>. When the visible association map
  binds \<open>slot_id\<close>, the bound component identity is returned and nothing changes.
  When the visible map has no binding for \<open>slot_id\<close>, or no layer has the map at all,
  the subscription raises: the error is Python's \<^verbatim>\<open>KeyError\<close>, which is what the
  specification calls \<open>AssociationNotFoundError\<close>; nothing catches it.
\<close>

theorem get_slot_component_association_result:
  "(ctx_find h context SLOT_COMPONENT_ASSOC_KEY = Some (VDict a) \<and> dict_objs h a slot_id = Some v
      \<longrightarrow> get_slot_component_association h context slot_id = Inr (v, h))
   \<and> (ctx_find h context SLOT_COMPONENT_ASSOC_KEY = Some (VDict a) \<and> dict_objs h a slot_id = None
      \<longrightarrow> get_slot_component_association h context slot_id = Inl (KeyError slot_id))
   \<and> (\<not> ctx_contains h context SLOT_COMPONENT_ASSOC_KEY
      \<longrightarrow> get_slot_component_association h context slot_id
            = Inl (KeyError SLOT_COMPONENT_ASSOC_KEY))"
  by (simp add: get_slot_component_association_def ctx_getitem_def bind_err_def
      val_getitem_def ctx_contains_find)

lemma ex_rendering_assoc:
  "ctx_find ex_rendering 1 SLOT_COMPONENT_ASSOC_KEY = Some (VDict 6)"
  by (simp add: ctx_find_def ex_rendering_def mk_heap_def FILLED_SLOTS_CONTENT_CONTEXT_KEY_def
      SLOT_COMPONENT_ASSOC_KEY_def OUTER_ROOT_CTX_CONTEXT_KEY_def)

lemma ex_rendering_slots:
  "dict_objs ex_rendering 6 ''slot1'' = Some (VStr ''comp1'')"
  "dict_objs ex_rendering 6 ''slot2'' = None"
  by (simp_all add: ex_rendering_def mk_heap_def)

lemma ex_first_no_assoc: "\<not> ctx_contains ex_first 1 SLOT_COMPONENT_ASSOC_KEY"
  by (simp add: ctx_contains_def ex_first_def mk_heap_def builtins_def
      SLOT_COMPONENT_ASSOC_KEY_def)

theorem get_slot_component_association_result_witness:
  "get_slot_component_association ex_rendering 1 ''slot1'' = Inr (VStr ''comp1'', ex_rendering)
   \<and> get_slot_component_association ex_rendering 1 ''slot2'' = Inl (KeyError ''slot2'')
   \<and> get_slot_component_association ex_first 1 ''slot1'' = Inl (KeyError SLOT_COMPONENT_ASSOC_KEY)"
  using get_slot_component_association_result [of ex_rendering 1 6 "''slot1''" "VStr ''comp1''"]
    get_slot_component_association_result [of ex_rendering 1 6 "''slot2''"]
    get_slot_component_association_result [of ex_first 1 _ "''slot1''"]
    ex_rendering_assoc ex_rendering_slots ex_first_no_assoc
  by simp


section \<open>Forwarding the loop layer\<close>

lemma find_last_index_negative:
  "find_last_index xs p < 0 \<Longrightarrow> x \<in> set xs \<Longrightarrow> \<not> p x"
  by (induction xs) (auto simp: Let_def split: if_splits)

lemma find_last_index_found:
  "x \<in> set xs \<Longrightarrow> p x \<Longrightarrow> 0 \<le> find_last_index xs p"
  using find_last_index_negative [of xs p x] by force

lemma find_last_index_bound: "find_last_index xs p < int (length xs)"
  by (induction xs) (auto simp: Let_def)

lemma find_last_index_holds:
  "0 \<le> find_last_index xs p \<Longrightarrow> p (xs ! nat (find_last_index xs p))"
proof (induction xs)
  case Nil
  then show ?case by simp
next
  case (Cons x xs)
  show ?case
  proof (cases "0 \<le> find_last_index xs p")
    case True
    then have "nat (find_last_index xs p + 1) = Suc (nat (find_last_index xs p))" by simp
    with True Cons.IH show ?thesis by (simp add: Let_def)
  next
    case False
    with Cons.prems show ?thesis by (simp add: Let_def split: if_splits)
  qed
qed

lemma find_last_index_is_last:
  "0 \<le> find_last_index xs p \<Longrightarrow> nat (find_last_index xs p) < j \<Longrightarrow> j < length xs \<Longrightarrow>
   \<not> p (xs ! j)"
proof (induction xs arbitrary: j)
  case Nil
  then show ?case by simp
next
  case (Cons x xs)
  from Cons.prems(2) obtain j' where j: "j = Suc j'" by (cases j) auto
  with Cons.prems(3) have j'len: "j' < length xs" by simp
  show ?case
  proof (cases "0 \<le> find_last_index xs p")
    case True
    then have "nat (find_last_index xs p + 1) = Suc (nat (find_last_index xs p))" by simp
    with True Cons.prems(2) j have "nat (find_last_index xs p) < j'" by (simp add: Let_def)
    from Cons.IH [OF True this j'len] show ?thesis by (simp add: j)
  next
    case False
    then have "find_last_index xs p < 0" by simp
    from find_last_index_negative [OF this, of "xs ! j'"] j'len show ?thesis by (simp add: j)
  qed
qed

lemma py_index_nat: "0 \<le> i \<Longrightarrow> i < int (length xs) \<Longrightarrow> py_index xs i = Inr (xs ! nat i)"
  by (simp add: py_index_def)

lemma ctx_update_objs: "ctx_objs (ctx_update h c d) c = ctx_objs h c @ [dict_next h]"
  by (simp add: ctx_update_def ctx_push_def dict_alloc_def)

lemma ctx_update_new_dict: "dict_objs (ctx_update h c d) (dict_next h) = d"
  by (simp add: ctx_update_def ctx_push_def dict_alloc_def)

lemma ctx_update_find: "d k = Some v \<Longrightarrow> ctx_find (ctx_update h c d) c k = Some v"
  by (simp add: ctx_find_def ctx_update_objs ctx_update_new_dict)

text \<open>
  Claim C8. \<^verbatim>\<open>copy_forloop_context(from_context, to_context)\<close>: when no layer of
  \<open>from_context\<close> has the key \<^verbatim>\<open>"forloop"\<close>, nothing changes. Otherwise the layer
  of \<open>from_context\<close> that carries the marker and has no marked layer above it (the
  deepest loop's layer) is copied whole into a new last layer of \<open>to_context\<close>:
  the new layer has exactly the content of that layer, so every key bound there, the
  loop variables included, is found in \<open>to_context\<close> with the same value.
\<close>

theorem copy_forloop_context_copies_layer:
  "(\<not> ctx_contains h from_context ''forloop''
      \<longrightarrow> copy_forloop_context h from_context to_context = Inr h)
   \<and> (ctx_contains h from_context ''forloop'' \<longrightarrow>
        (\<exists>i h'. i < length (ctx_objs h from_context)
           \<and> dict_objs h (ctx_objs h from_context ! i) ''forloop'' \<noteq> None
           \<and> (\<forall>j. i < j \<and> j < length (ctx_objs h from_context)
                  \<longrightarrow> dict_objs h (ctx_objs h from_context ! j) ''forloop'' = None)
           \<and> copy_forloop_context h from_context to_context = Inr h'
           \<and> ctx_objs h' to_context = ctx_objs h to_context @ [dict_next h]
           \<and> dict_objs h' (dict_next h) = dict_objs h (ctx_objs h from_context ! i)
           \<and> (\<forall>k v. dict_objs h (ctx_objs h from_context ! i) k = Some v
                  \<longrightarrow> ctx_find h' to_context k = Some v)))"
proof (intro conjI impI)
  assume "\<not> ctx_contains h from_context ''forloop''"
  then show "copy_forloop_context h from_context to_context = Inr h"
    by (simp add: copy_forloop_context_def)
next
  assume c: "ctx_contains h from_context ''forloop''"
  let ?ds = "ctx_objs h from_context"
  let ?p = "\<lambda>d. dict_objs h d ''forloop'' \<noteq> None"
  let ?r = "find_last_index ?ds ?p"
  let ?i = "nat ?r"
  let ?h' = "ctx_update h to_context (dict_objs h (?ds ! ?i))"
  from c obtain d where "d \<in> set ?ds" "?p d"
    by (auto simp: ctx_contains_def list_ex_iff)
  then have r0: "0 \<le> ?r" using find_last_index_found [of d ?ds ?p] by simp
  have rlen: "?r < int (length ?ds)" by (rule find_last_index_bound)
  have 1: "?i < length ?ds" using r0 rlen by simp
  have 2: "?p (?ds ! ?i)" using find_last_index_holds [of ?ds ?p] r0 by simp
  have 3: "\<forall>j. ?i < j \<and> j < length ?ds \<longrightarrow> dict_objs h (?ds ! j) ''forloop'' = None"
    using find_last_index_is_last [of ?ds ?p] r0 by simp
  have 4: "copy_forloop_context h from_context to_context = Inr ?h'"
    using c
    by (simp add: copy_forloop_context_def Let_def py_index_nat [OF r0 rlen] bind_err_def
        del: not_None_eq)
  have 5: "ctx_objs ?h' to_context = ctx_objs h to_context @ [dict_next h]"
    by (rule ctx_update_objs)
  have 6: "dict_objs ?h' (dict_next h) = dict_objs h (?ds ! ?i)"
    by (rule ctx_update_new_dict)
  have 7: "\<forall>k v. dict_objs h (?ds ! ?i) k = Some v \<longrightarrow> ctx_find ?h' to_context k = Some v"
    by (simp add: ctx_update_find)
  show "\<exists>i h'. i < length ?ds
           \<and> dict_objs h (?ds ! i) ''forloop'' \<noteq> None
           \<and> (\<forall>j. i < j \<and> j < length ?ds \<longrightarrow> dict_objs h (?ds ! j) ''forloop'' = None)
           \<and> copy_forloop_context h from_context to_context = Inr h'
           \<and> ctx_objs h' to_context = ctx_objs h to_context @ [dict_next h]
           \<and> dict_objs h' (dict_next h) = dict_objs h (?ds ! i)
           \<and> (\<forall>k v. dict_objs h (?ds ! i) k = Some v \<longrightarrow> ctx_find h' to_context k = Some v)"
    using 1 2 3 4 5 6 7 by blast
qed

lemma ex_loop_ctx0: "ctx_objs ex_loop 0 = [0, 1, 2, 3]"
  by (simp add: ex_loop_def mk_heap_def)

lemma ex_loop_layer3:
  "dict_objs ex_loop 3 = [''forloop'' \<mapsto> VInt 1, ''cell'' \<mapsto> VStr ''c'']"
  by (simp add: ex_loop_def mk_heap_def)

lemma ex_loop_marker: "ctx_contains ex_loop 0 ''forloop''"
  by (simp add: ctx_contains_def ex_loop_ctx0 ex_loop_layer3)

lemma ex_first_no_marker: "\<not> ctx_contains ex_first 0 ''forloop''"
  by (simp add: ctx_contains_def ex_first_def mk_heap_def builtins_def)

theorem copy_forloop_context_copies_layer_witness:
  "copy_forloop_context ex_first 0 1 = Inr ex_first
   \<and> (\<exists>h'. copy_forloop_context ex_loop 0 1 = Inr h'
          \<and> ctx_find h' 1 ''forloop'' = Some (VInt 1)
          \<and> ctx_find h' 1 ''cell'' = Some (VStr ''c''))"
proof -
  have a: "copy_forloop_context ex_first 0 1 = Inr ex_first"
    using copy_forloop_context_copies_layer [of ex_first 0 1] ex_first_no_marker by simp
  let ?ds = "ctx_objs ex_loop 0"
  have "\<exists>i h'. i < length ?ds
           \<and> dict_objs ex_loop (?ds ! i) ''forloop'' \<noteq> None
           \<and> (\<forall>j. i < j \<and> j < length ?ds \<longrightarrow> dict_objs ex_loop (?ds ! j) ''forloop'' = None)
           \<and> copy_forloop_context ex_loop 0 1 = Inr h'
           \<and> ctx_objs h' 1 = ctx_objs ex_loop 1 @ [dict_next ex_loop]
           \<and> dict_objs h' (dict_next ex_loop) = dict_objs ex_loop (?ds ! i)
           \<and> (\<forall>k v. dict_objs ex_loop (?ds ! i) k = Some v \<longrightarrow> ctx_find h' 1 k = Some v)"
    using copy_forloop_context_copies_layer [of ex_loop 0 1] ex_loop_marker by blast
  then obtain i h' where i: "i < length ?ds"
    and top: "\<forall>j. i < j \<and> j < length ?ds \<longrightarrow> dict_objs ex_loop (?ds ! j) ''forloop'' = None"
    and r: "copy_forloop_context ex_loop 0 1 = Inr h'"
    and f: "\<forall>k v. dict_objs ex_loop (?ds ! i) k = Some v \<longrightarrow> ctx_find h' 1 k = Some v"
    by blast
  have l3: "?ds ! 3 = 3" "length ?ds = 4" by (simp_all add: ex_loop_ctx0)
  have "i = 3"
  proof (rule ccontr)
    assume "i \<noteq> 3"
    with i l3 have "i < 3 \<and> 3 < length ?ds" by simp
    with top have "dict_objs ex_loop (?ds ! 3) ''forloop'' = None" by blast
    then show False by (simp add: l3 ex_loop_layer3)
  qed
  with f have "ctx_find h' 1 ''forloop'' = Some (VInt 1)" "ctx_find h' 1 ''cell'' = Some (VStr ''c'')"
    by (simp_all add: l3 ex_loop_layer3)
  with a r show ?thesis by blast
qed


section \<open>Copy on write of the association map\<close>

lemma dict_setitem_simps:
  "dict_objs (dict_setitem h a k v) b = (if b = a then (dict_objs h a)(k \<mapsto> v) else dict_objs h b)"
  "ctx_objs (dict_setitem h a k v) = ctx_objs h"
  "dict_next (dict_setitem h a k v) = dict_next h"
  "ctx_next (dict_setitem h a k v) = ctx_next h"
  by (simp_all add: dict_setitem_def)

lemma dict_alloc_simps:
  "snd (dict_alloc h d) = dict_next h"
  "dict_objs (fst (dict_alloc h d)) b = (if b = dict_next h then d else dict_objs h b)"
  "ctx_objs (fst (dict_alloc h d)) = ctx_objs h"
  "dict_next (fst (dict_alloc h d)) = Suc (dict_next h)"
  "ctx_next (fst (dict_alloc h d)) = ctx_next h"
  by (simp_all add: dict_alloc_def)

lemma py_index_last: "xs \<noteq> [] \<Longrightarrow> py_index xs (- 1) = Inr (last xs)"
proof -
  assume ne: "xs \<noteq> []"
  then have l: "Suc 0 \<le> length xs" by (cases xs) auto
  then have "nat (int (length xs) + - 1) = length xs - 1" by simp
  with ne l show ?thesis by (simp add: py_index_def last_conv_nth)
qed

lemma py_index_empty: "py_index [] i = Inl IndexError"
  by (simp add: py_index_def)

lemma ctx_find_top:
  "ctx_objs h c \<noteq> [] \<Longrightarrow> dict_objs h (last (ctx_objs h c)) k = Some v \<Longrightarrow> ctx_find h c k = Some v"
  by (cases "ctx_objs h c" rule: rev_cases) (simp_all add: ctx_find_def)

lemma ctx_live_top:
  "ctx_live h c \<Longrightarrow> ctx_objs h c \<noteq> [] \<and> last (ctx_objs h c) < dict_next h"
  by (auto simp: ctx_live_def list_all_iff)

text \<open>
  Claim C3. Let the last layer of the scope have no entry of its own for the
  association map, while a lower layer makes the map (dict \<open>a\<close>) visible.
  \<^verbatim>\<open>set_slot_component_association\<close> then copies the visible map into a new dict,
  binds the key to the copy in the last layer, and writes the binding into the copy:
  afterwards \<^verbatim>\<open>get_slot_component_association\<close> returns \<open>component_id\<close>, the dict
  \<open>a\<close> that the lower layers share is what it was, and so is every other dict but the
  last layer. (The scope is a live context, and \<open>a\<close> is an allocated dict that is
  not itself the last layer.)
\<close>

theorem set_slot_component_association_copy_on_write:
  assumes live: "ctx_live h context"
    and own: "dict_objs h (last (ctx_objs h context)) SLOT_COMPONENT_ASSOC_KEY = None"
    and vis: "ctx_find h context SLOT_COMPONENT_ASSOC_KEY = Some (VDict a)"
    and a: "a < dict_next h" "a \<noteq> last (ctx_objs h context)"
  shows "\<exists>h'. set_slot_component_association h context slot_id component_id = Inr h'
           \<and> dict_objs h' (last (ctx_objs h context))
               = (dict_objs h (last (ctx_objs h context)))
                   (SLOT_COMPONENT_ASSOC_KEY \<mapsto> VDict (dict_next h))
           \<and> dict_objs h' (dict_next h) = (dict_objs h a)(slot_id \<mapsto> VStr component_id)
           \<and> get_slot_component_association h' context slot_id = Inr (VStr component_id, h')
           \<and> dict_objs h' a = dict_objs h a
           \<and> (\<forall>d. d < dict_next h \<and> d \<noteq> last (ctx_objs h context)
                  \<longrightarrow> dict_objs h' d = dict_objs h d)
           \<and> ctx_objs h' = ctx_objs h"
proof -
  let ?top = "last (ctx_objs h context)"
  let ?n = "dict_next h"
  let ?h0 = "fst (dict_alloc h (dict_objs h a))"
  let ?h1 = "dict_setitem ?h0 ?top SLOT_COMPONENT_ASSOC_KEY (VDict ?n)"
  let ?h' = "dict_setitem ?h1 ?n slot_id (VStr component_id)"
  from live have ne: "ctx_objs h context \<noteq> []" and top: "?top < ?n"
    using ctx_live_top by auto
  have copy: "val_copy h (VDict a) = Inr (?h0, ?n)"
    by (simp add: val_copy_def dict_alloc_def)
  have top1: "dict_objs ?h1 ?top SLOT_COMPONENT_ASSOC_KEY = Some (VDict ?n)"
    by (simp add: dict_setitem_simps)
  have objs1: "ctx_objs ?h1 context = ctx_objs h context"
    by (simp add: dict_setitem_simps dict_alloc_simps)
  have vis1: "ctx_find ?h1 context SLOT_COMPONENT_ASSOC_KEY = Some (VDict ?n)"
    using ctx_find_top [of ?h1 "context" SLOT_COMPONENT_ASSOC_KEY "VDict ?n"] ne top1 objs1
    by simp
  have res: "set_slot_component_association h context slot_id component_id = Inr ?h'"
    using ne own vis
    by (simp add: set_slot_component_association_def py_index_last bind_err_def ctx_getitem_def
        copy vis1 val_setitem_def)
  have topd: "dict_objs ?h' ?top
               = (dict_objs h ?top)(SLOT_COMPONENT_ASSOC_KEY \<mapsto> VDict ?n)"
    using top by (simp add: dict_setitem_simps dict_alloc_simps)
  have newd: "dict_objs ?h' ?n = (dict_objs h a)(slot_id \<mapsto> VStr component_id)"
    using top by (simp add: dict_setitem_simps dict_alloc_simps)
  have objs': "ctx_objs ?h' = ctx_objs h"
    by (simp add: dict_setitem_simps dict_alloc_simps)
  have vis': "ctx_find ?h' context SLOT_COMPONENT_ASSOC_KEY = Some (VDict ?n)"
    using ctx_find_top [of ?h' "context" SLOT_COMPONENT_ASSOC_KEY "VDict ?n"] ne topd objs'
    by simp
  have get: "get_slot_component_association ?h' context slot_id = Inr (VStr component_id, ?h')"
    by (simp add: get_slot_component_association_def ctx_getitem_def vis' bind_err_def
        val_getitem_def newd)
  have olda: "dict_objs ?h' a = dict_objs h a"
    using a by (simp add: dict_setitem_simps dict_alloc_simps)
  have others: "\<forall>d. d < ?n \<and> d \<noteq> ?top \<longrightarrow> dict_objs ?h' d = dict_objs h d"
    by (simp add: dict_setitem_simps dict_alloc_simps)
  show ?thesis
    using res topd newd get olda others objs' by blast
qed

lemma ex_rendering_ctx1:
  "ctx_objs ex_rendering 1 = [3, 4, 5]" "ctx_objs ex_rendering (Suc 0) = [3, 4, 5]"
  by (simp_all add: ex_rendering_def mk_heap_def)

lemma ex_rendering_live: "ctx_live ex_rendering 1"
  by (simp add: ctx_live_def ex_rendering_def mk_heap_def)

lemma ex_rendering_top_empty: "dict_objs ex_rendering 5 = Map.empty"
  by (simp add: ex_rendering_def mk_heap_def)

lemma ex_rendering_assoc_dict: "dict_objs ex_rendering 6 = [''slot1'' \<mapsto> VStr ''comp1'']"
  by (simp add: ex_rendering_def mk_heap_def)

theorem set_slot_component_association_copy_on_write_witness:
  "\<exists>h'. set_slot_component_association ex_rendering 1 ''slot1'' ''comp2'' = Inr h'
        \<and> get_slot_component_association h' 1 ''slot1'' = Inr (VStr ''comp2'', h')
        \<and> dict_objs h' 6 = [''slot1'' \<mapsto> VStr ''comp1'']"
proof -
  have own: "dict_objs ex_rendering (last (ctx_objs ex_rendering 1)) SLOT_COMPONENT_ASSOC_KEY = None"
    by (simp add: ex_rendering_ctx1 ex_rendering_top_empty)
  have a: "6 < dict_next ex_rendering" "6 \<noteq> last (ctx_objs ex_rendering 1)"
    by (simp_all add: ex_rendering_ctx1) (simp add: ex_rendering_def mk_heap_def)
  from set_slot_component_association_copy_on_write
    [OF ex_rendering_live own ex_rendering_assoc a, of "''slot1''" "''comp2''"]
  show ?thesis by (auto simp: ex_rendering_assoc_dict)
qed


section \<open>The outer root context\<close>

lemma set_outer_root_context_split:
  "set_outer_root_context b h c outer_ctx =
     root_store (fst (root_base b h c outer_ctx)) c (snd (root_base b h c outer_ctx))"
  by (simp add: set_outer_root_context_def root_base_def root_store_def split_beta Let_def)

lemma Context_init_simps:
  "snd (Context_init h) = ctx_next h"
  "dict_objs (fst (Context_init h)) b = (if b = dict_next h then builtins else dict_objs h b)"
  "ctx_objs (fst (Context_init h)) x = (if x = ctx_next h then [dict_next h] else ctx_objs h x)"
  "dict_next (fst (Context_init h)) = Suc (dict_next h)"
  "ctx_next (fst (Context_init h)) = Suc (ctx_next h)"
  by (simp_all add: Context_init_def dict_alloc_def)

lemma ctx_push_simps:
  "dict_objs (ctx_push h c d) b = (if b = dict_next h then d else dict_objs h b)"
  "ctx_objs (ctx_push h c d) x = (if x = c then ctx_objs h c @ [dict_next h] else ctx_objs h x)"
  "dict_next (ctx_push h c d) = Suc (dict_next h)"
  "ctx_next (ctx_push h c d) = ctx_next h"
  by (simp_all add: ctx_push_def dict_alloc_def)

lemma keys_distinct:
  "SLOT_COMPONENT_ASSOC_KEY \<noteq> FILLED_SLOTS_CONTENT_CONTEXT_KEY"
  "SLOT_COMPONENT_ASSOC_KEY \<noteq> OUTER_ROOT_CTX_CONTEXT_KEY"
  "SLOT_COMPONENT_ASSOC_KEY \<noteq> PARENT_COMP_KEY"
  "SLOT_COMPONENT_ASSOC_KEY \<noteq> CURRENT_COMP_KEY"
  "FILLED_SLOTS_CONTENT_CONTEXT_KEY \<noteq> OUTER_ROOT_CTX_CONTEXT_KEY"
  "FILLED_SLOTS_CONTENT_CONTEXT_KEY \<noteq> PARENT_COMP_KEY"
  "FILLED_SLOTS_CONTENT_CONTEXT_KEY \<noteq> CURRENT_COMP_KEY"
  "OUTER_ROOT_CTX_CONTEXT_KEY \<noteq> PARENT_COMP_KEY"
  "OUTER_ROOT_CTX_CONTEXT_KEY \<noteq> CURRENT_COMP_KEY"
  "PARENT_COMP_KEY \<noteq> CURRENT_COMP_KEY"
  "SLOT_COMPONENT_ASSOC_KEY \<noteq> ''forloop''"
  "FILLED_SLOTS_CONTENT_CONTEXT_KEY \<noteq> ''forloop''"
  "OUTER_ROOT_CTX_CONTEXT_KEY \<noteq> ''forloop''"
  "PARENT_COMP_KEY \<noteq> ''forloop''"
  "CURRENT_COMP_KEY \<noteq> ''forloop''"
  by (simp_all add: SLOT_COMPONENT_ASSOC_KEY_def FILLED_SLOTS_CONTENT_CONTEXT_KEY_def
      OUTER_ROOT_CTX_CONTEXT_KEY_def PARENT_COMP_KEY_def CURRENT_COMP_KEY_def)

lemma bind_err_Inr: "bind_err (Inr x) f = f x"
  by (simp add: bind_err_def)

lemma bind_err_Inl: "bind_err (Inl e) f = Inl e"
  by (simp add: bind_err_def)

lemma root_store_result:
  assumes r: "ctx_objs h1 r \<noteq> []"
    and t: "last (ctx_objs h1 r) \<notin> set (ctx_objs h1 c)"
    and c: "ctx_objs h1 c \<noteq> []"
  shows "root_store h1 c r =
           Inr (dict_setitem
                  (h1\<lparr>dict_objs := (dict_objs h1)
                         (last (ctx_objs h1 r) :=
                            with_mappings h1 c (dict_objs h1 (last (ctx_objs h1 r))))\<rparr>)
                  (last (ctx_objs h1 c)) OUTER_ROOT_CTX_CONTEXT_KEY (VCtx r))"
proof -
  let ?t = "last (ctx_objs h1 r)"
  let ?A = SLOT_COMPONENT_ASSOC_KEY
  let ?F = FILLED_SLOTS_CONTENT_CONTEXT_KEY
  let ?d1 = "case ctx_find h1 c ?A of None \<Rightarrow> dict_objs h1 ?t
             | Some v \<Rightarrow> (dict_objs h1 ?t)(?A \<mapsto> v)"
  let ?h2 = "h1\<lparr>dict_objs := (dict_objs h1)(?t := ?d1)\<rparr>"
  have step1: "(if ctx_contains h1 c ?A
        then bind_err (ctx_getitem h1 c ?A) (\<lambda>v. ctx_setitem h1 r ?A v)
        else Inr h1) = Inr ?h2"
    using r
    by (cases "ctx_find h1 c ?A")
       (simp_all add: ctx_contains_find ctx_getitem_def bind_err_def ctx_setitem_def
          dict_setitem_def)
  have find2: "ctx_find ?h2 c k = ctx_find h1 c k" for k
    by (rule ctx_find_cong) (use t in auto)
  let ?d2 = "case ctx_find h1 c ?F of None \<Rightarrow> ?d1 | Some v \<Rightarrow> ?d1(?F \<mapsto> v)"
  let ?h3 = "h1\<lparr>dict_objs := (dict_objs h1)(?t := ?d2)\<rparr>"
  have step2: "(if ctx_contains ?h2 c ?F
        then bind_err (ctx_getitem ?h2 c ?F) (\<lambda>v. ctx_setitem ?h2 r ?F v)
        else Inr ?h2) = Inr ?h3"
    using r
    by (cases "ctx_find h1 c ?F")
       (simp_all add: ctx_contains_find ctx_getitem_def bind_err_def ctx_setitem_def
          dict_setitem_def find2)
  have d2: "?d2 = with_mappings h1 c (dict_objs h1 ?t)"
    by (simp add: with_mappings_def Let_def)
  have step3: "ctx_setitem ?h3 c OUTER_ROOT_CTX_CONTEXT_KEY (VCtx r)
      = Inr (dict_setitem ?h3 (last (ctx_objs h1 c)) OUTER_ROOT_CTX_CONTEXT_KEY (VCtx r))"
    using c by (simp add: ctx_setitem_def)
  show ?thesis
    by (simp only: root_store_def step1 bind_err_Inr step2 step3) (simp only: d2)
qed

lemma fresh_root_Context_init: "fresh_root h (fst (Context_init h)) (snd (Context_init h))"
  by (simp add: fresh_root_def Context_init_simps)

lemma fresh_root_new_push:
  "fresh_root h (ctx_push (fst (ctx_new h oc)) (snd (ctx_new h oc)) d) (snd (ctx_new h oc))"
  by (simp add: fresh_root_def ctx_new_def ctx_push_simps Context_init_simps)

lemma fresh_root_base: "fresh_root h (fst (root_base b h c outer)) (snd (root_base b h c outer))"
proof (cases outer)
  case None
  then show ?thesis by (simp add: root_base_def fresh_root_Context_init)
next
  case (Some oc)
  then show ?thesis
    by (simp add: root_base_def split_beta Let_def fresh_root_Context_init fresh_root_new_push)
qed

lemma ctx_live_layers: "ctx_live h c \<Longrightarrow> d \<in> set (ctx_objs h c) \<Longrightarrow> d < dict_next h"
  by (simp add: ctx_live_def list_all_iff)

lemma ctx_live_addr: "ctx_live h c \<Longrightarrow> c < ctx_next h"
  by (simp add: ctx_live_def)

lemma fresh_root_find:
  assumes "ctx_live h c" "fresh_root h h1 r"
  shows "ctx_find h1 c k = ctx_find h c k"
proof (rule ctx_find_cong)
  show "ctx_objs h1 c = ctx_objs h c"
    using assms by (simp add: fresh_root_def ctx_live_def)
next
  fix d assume "d \<in> set (ctx_objs h c)"
  then have "d < dict_next h" using assms(1) by (rule ctx_live_layers [rotated])
  then show "dict_objs h1 d k = dict_objs h d k"
    using assms(2) by (simp add: fresh_root_def)
qed

lemma with_mappings_cong:
  "(\<And>k. ctx_find h1 c k = ctx_find h c k) \<Longrightarrow> with_mappings h1 c d = with_mappings h c d"
  by (simp add: with_mappings_def)

lemma store_fresh_root:
  assumes live: "ctx_live h c" and fr: "fresh_root h h1 r"
  shows "root_store h1 c r =
           Inr (dict_setitem
                  (h1\<lparr>dict_objs := (dict_objs h1)
                         (last (ctx_objs h1 r) :=
                            with_mappings h c (dict_objs h1 (last (ctx_objs h1 r))))\<rparr>)
                  (last (ctx_objs h c)) OUTER_ROOT_CTX_CONTEXT_KEY (VCtx r))"
proof -
  have objs: "ctx_objs h1 c = ctx_objs h c"
    using live fr by (simp add: fresh_root_def ctx_live_def)
  have r: "ctx_objs h1 r \<noteq> []" using fr by (simp add: fresh_root_def)
  have c: "ctx_objs h1 c \<noteq> []" using live objs by (simp add: ctx_live_def)
  have t: "last (ctx_objs h1 r) \<notin> set (ctx_objs h1 c)"
  proof
    assume "last (ctx_objs h1 r) \<in> set (ctx_objs h1 c)"
    then have "last (ctx_objs h1 r) < dict_next h"
      using live objs ctx_live_layers by simp
    moreover have "dict_next h \<le> last (ctx_objs h1 r)" using fr by (simp add: fresh_root_def)
    ultimately show False by simp
  qed
  have wm: "with_mappings h1 c d = with_mappings h c d" for d
    by (rule with_mappings_cong) (rule fresh_root_find [OF live fr])
  show ?thesis
    using root_store_result [OF r t c] by (simp add: wm objs)
qed

lemma store_fresh_root_writes_top:
  assumes live: "ctx_live h c" and fr: "fresh_root h h1 r"
    and res: "root_store h1 c r = Inr h'"
  shows "writes_top {OUTER_ROOT_CTX_CONTEXT_KEY} c h h'"
proof -
  have top: "last (ctx_objs h c) < dict_next h"
    using live ctx_live_top by simp
  have c: "c < ctx_next h" using live by (rule ctx_live_addr)
  have t: "dict_next h \<le> last (ctx_objs h1 r)" using fr by (simp add: fresh_root_def)
  from res store_fresh_root [OF live fr]
  have h': "h' = dict_setitem
                  (h1\<lparr>dict_objs := (dict_objs h1)
                         (last (ctx_objs h1 r) :=
                            with_mappings h c (dict_objs h1 (last (ctx_objs h1 r))))\<rparr>)
                  (last (ctx_objs h c)) OUTER_ROOT_CTX_CONTEXT_KEY (VCtx r)"
    by simp
  show ?thesis
    unfolding writes_top_def
    using fr top c t by (auto simp: h' dict_setitem_simps fresh_root_def)
qed

lemma set_outer_root_context_ok:
  assumes live: "ctx_live h c"
  shows "\<exists>h'. set_outer_root_context b h c outer = Inr h'
           \<and> writes_top {OUTER_ROOT_CTX_CONTEXT_KEY} c h h'"
proof -
  let ?h1 = "fst (root_base b h c outer)" and ?r = "snd (root_base b h c outer)"
  have fr: "fresh_root h ?h1 ?r" by (rule fresh_root_base)
  from store_fresh_root [OF live fr] obtain h' where h': "root_store ?h1 c ?r = Inr h'"
    by blast
  from store_fresh_root_writes_top [OF live fr h'] h'
  show ?thesis by (simp add: set_outer_root_context_split)
qed






lemma root_base_layer1:
  assumes live: "ctx_live h oc"
    and nf: "\<not> (\<not> truthy h (ctx_get h c PARENT_COMP_KEY VNone) \<and> b = ISOLATED
              \<and> ctx_contains h c OUTER_ROOT_CTX_CONTEXT_KEY)"
    and len: "1 < length (ctx_objs h oc)"
  shows "root_base b h c (Some oc)
           = (ctx_push (fst (Context_init h)) (ctx_next h) (dict_objs h (ctx_objs h oc ! 1)),
              ctx_next h)"
proof -
  have oc: "oc \<noteq> ctx_next h" using live by (simp add: ctx_live_def)
  have "ctx_objs h oc ! 1 \<in> set (ctx_objs h oc)" using len by simp
  then have "ctx_objs h oc ! 1 < dict_next h" using live ctx_live_layers by blast
  then have l: "ctx_objs h oc ! 1 \<noteq> dict_next h" by simp
  show ?thesis
    using nf len oc l
    by (auto simp: root_base_def ctx_new_def split_beta Let_def Context_init_simps)
qed

lemma outer_root_pushed:
  assumes live: "ctx_live h c"
    and base: "root_base b h c outer
                 = (ctx_push (fst (Context_init h)) (ctx_next h) d, ctx_next h)"
  shows "\<exists>h'. set_outer_root_context b h c outer = Inr h'
           \<and> ctx_find h' c OUTER_ROOT_CTX_CONTEXT_KEY = Some (VCtx (ctx_next h))
           \<and> ctx_objs h' (ctx_next h) = [dict_next h, Suc (dict_next h)]
           \<and> dict_objs h' (dict_next h) = builtins
           \<and> dict_objs h' (Suc (dict_next h)) = with_mappings h c d"
proof -
  let ?n = "dict_next h" and ?m = "ctx_next h"
  let ?top = "last (ctx_objs h c)"
  let ?h1 = "ctx_push (fst (Context_init h)) ?m d"
  have fr: "fresh_root h ?h1 ?m"
    using fresh_root_base [of h b c outer] by (simp add: base)
  have objs1: "ctx_objs ?h1 ?m = [?n, Suc ?n]"
    by (simp add: ctx_push_simps Context_init_simps)
  have top: "ctx_objs h c \<noteq> []" "?top < ?n" using live ctx_live_top by auto
  have c: "c \<noteq> ?m" using live by (simp add: ctx_live_def)
  let ?h' = "dict_setitem
               (?h1\<lparr>dict_objs := (dict_objs ?h1)
                      (Suc ?n := with_mappings h c (dict_objs ?h1 (Suc ?n)))\<rparr>)
               ?top OUTER_ROOT_CTX_CONTEXT_KEY (VCtx ?m)"
  have res: "set_outer_root_context b h c outer = Inr ?h'"
    using store_fresh_root [OF live fr]
    by (simp add: set_outer_root_context_split base objs1)
  have objs': "ctx_objs ?h' c = ctx_objs h c"
    using c by (simp add: dict_setitem_simps ctx_push_simps Context_init_simps)
  have tp: "dict_objs ?h' ?top OUTER_ROOT_CTX_CONTEXT_KEY = Some (VCtx ?m)"
    by (simp add: dict_setitem_simps)
  have f: "ctx_find ?h' c OUTER_ROOT_CTX_CONTEXT_KEY = Some (VCtx ?m)"
    by (rule ctx_find_top) (simp_all add: objs' top tp)
  have o: "ctx_objs ?h' ?m = [?n, Suc ?n]"
    by (simp add: dict_setitem_simps objs1)
  have b0: "dict_objs ?h' ?n = builtins"
    using top by (simp add: dict_setitem_simps ctx_push_simps Context_init_simps)
  have b1: "dict_objs ?h' (Suc ?n) = with_mappings h c d"
    using top by (simp add: dict_setitem_simps ctx_push_simps Context_init_simps)
  from res f o b0 b1 show ?thesis by blast
qed

lemma with_mappings_other:
  "k \<noteq> SLOT_COMPONENT_ASSOC_KEY \<Longrightarrow> k \<noteq> FILLED_SLOTS_CONTENT_CONTEXT_KEY \<Longrightarrow>
   with_mappings h c d k = d k"
  by (simp add: with_mappings_def Let_def split: option.splits)

lemma with_mappings_assoc:
  "with_mappings h c d SLOT_COMPONENT_ASSOC_KEY
     = (case ctx_find h c SLOT_COMPONENT_ASSOC_KEY of
          Some v \<Rightarrow> Some v | None \<Rightarrow> d SLOT_COMPONENT_ASSOC_KEY)"
  by (simp add: with_mappings_def Let_def keys_distinct split: option.splits)

lemma with_mappings_fills:
  "with_mappings h c d FILLED_SLOTS_CONTENT_CONTEXT_KEY
     = (case ctx_find h c FILLED_SLOTS_CONTENT_CONTEXT_KEY of
          Some v \<Rightarrow> Some v | None \<Rightarrow> d FILLED_SLOTS_CONTENT_CONTEXT_KEY)"
  by (simp add: with_mappings_def Let_def split: option.splits)

lemma ctx_find_two:
  "ctx_objs h r = [x, y] \<Longrightarrow>
   ctx_find h r k = (case dict_objs h y k of Some v \<Rightarrow> Some v | None \<Rightarrow> dict_objs h x k)"
  by (simp add: ctx_find_def split: option.splits)


text \<open>
  Claim C2, as the code has it. When the flattening case does not apply and the
  outer scope has more than one layer, the stored outer root context has two layers:
  new defaults (\<^verbatim>\<open>True\<close>, \<^verbatim>\<open>False\<close>, \<^verbatim>\<open>None\<close>) and a copy of the outer scope's
  layer \<open>1\<close> in which the association map and the fill registry of the current scope,
  when it has them, are bound under their two keys. So for every key other than
  those two, the copied layer binds exactly what layer \<open>1\<close> binds, and a key that is
  neither one of the two nor a default is exposed exactly when layer \<open>1\<close> has it:
  keys found only in layer \<open>0\<close> or in layers \<open>2\<close> and above are not.
\<close>

theorem set_outer_root_context_layer_one:
  assumes "ctx_live h context" and "ctx_live h outer_ctx"
    and "\<not> (\<not> truthy h (ctx_get h context PARENT_COMP_KEY VNone) \<and> policy = ISOLATED
            \<and> ctx_contains h context OUTER_ROOT_CTX_CONTEXT_KEY)"
    and "1 < length (ctx_objs h outer_ctx)"
  shows "\<exists>h' r. set_outer_root_context policy h context (Some outer_ctx) = Inr h'
           \<and> ctx_find h' context OUTER_ROOT_CTX_CONTEXT_KEY = Some (VCtx r)
           \<and> length (ctx_objs h' r) = 2
           \<and> dict_objs h' (ctx_objs h' r ! 0) = builtins
           \<and> (\<forall>k. k \<noteq> SLOT_COMPONENT_ASSOC_KEY \<and> k \<noteq> FILLED_SLOTS_CONTENT_CONTEXT_KEY
                  \<longrightarrow> dict_objs h' (ctx_objs h' r ! 1) k
                        = dict_objs h (ctx_objs h outer_ctx ! 1) k)
           \<and> dict_objs h' (ctx_objs h' r ! 1) SLOT_COMPONENT_ASSOC_KEY
               = (case ctx_find h context SLOT_COMPONENT_ASSOC_KEY of
                    Some v \<Rightarrow> Some v
                  | None \<Rightarrow> dict_objs h (ctx_objs h outer_ctx ! 1) SLOT_COMPONENT_ASSOC_KEY)
           \<and> dict_objs h' (ctx_objs h' r ! 1) FILLED_SLOTS_CONTENT_CONTEXT_KEY
               = (case ctx_find h context FILLED_SLOTS_CONTENT_CONTEXT_KEY of
                    Some v \<Rightarrow> Some v
                  | None \<Rightarrow> dict_objs h (ctx_objs h outer_ctx ! 1)
                             FILLED_SLOTS_CONTENT_CONTEXT_KEY)
           \<and> (\<forall>k. k \<noteq> SLOT_COMPONENT_ASSOC_KEY \<and> k \<noteq> FILLED_SLOTS_CONTENT_CONTEXT_KEY
                    \<and> builtins k = None
                  \<longrightarrow> ctx_find h' r k = dict_objs h (ctx_objs h outer_ctx ! 1) k)"
proof -
  let ?n = "dict_next h" and ?m = "ctx_next h"
  let ?l1 = "dict_objs h (ctx_objs h outer_ctx ! 1)"
  have base: "root_base policy h context (Some outer_ctx)
                = (ctx_push (fst (Context_init h)) ?m ?l1, ?m)"
    by (rule root_base_layer1 [OF assms(2) assms(3) assms(4)])
  from outer_root_pushed [OF assms(1) base] obtain h' where
    res: "set_outer_root_context policy h context (Some outer_ctx) = Inr h'"
    and f: "ctx_find h' context OUTER_ROOT_CTX_CONTEXT_KEY = Some (VCtx ?m)"
    and o: "ctx_objs h' ?m = [?n, Suc ?n]"
    and b0: "dict_objs h' ?n = builtins"
    and b1: "dict_objs h' (Suc ?n) = with_mappings h context ?l1"
    by blast
  have l: "length (ctx_objs h' ?m) = 2" by (simp add: o)
  have d0: "dict_objs h' (ctx_objs h' ?m ! 0) = builtins" by (simp add: o b0)
  have d1: "\<forall>k. k \<noteq> SLOT_COMPONENT_ASSOC_KEY \<and> k \<noteq> FILLED_SLOTS_CONTENT_CONTEXT_KEY
              \<longrightarrow> dict_objs h' (ctx_objs h' ?m ! 1) k = ?l1 k"
    by (simp add: o b1 with_mappings_other)
  have a: "dict_objs h' (ctx_objs h' ?m ! 1) SLOT_COMPONENT_ASSOC_KEY
               = (case ctx_find h context SLOT_COMPONENT_ASSOC_KEY of
                    Some v \<Rightarrow> Some v | None \<Rightarrow> ?l1 SLOT_COMPONENT_ASSOC_KEY)"
    by (simp add: o b1 with_mappings_assoc split: option.splits)
  have fl: "dict_objs h' (ctx_objs h' ?m ! 1) FILLED_SLOTS_CONTENT_CONTEXT_KEY
               = (case ctx_find h context FILLED_SLOTS_CONTENT_CONTEXT_KEY of
                    Some v \<Rightarrow> Some v | None \<Rightarrow> ?l1 FILLED_SLOTS_CONTENT_CONTEXT_KEY)"
    by (simp add: o b1 with_mappings_fills split: option.splits)
  have e: "\<forall>k. k \<noteq> SLOT_COMPONENT_ASSOC_KEY \<and> k \<noteq> FILLED_SLOTS_CONTENT_CONTEXT_KEY
              \<and> builtins k = None \<longrightarrow> ctx_find h' ?m k = ?l1 k"
    by (simp add: ctx_find_two [OF o] b0 b1 with_mappings_other split: option.splits)
  from res f l d0 d1 a fl e show ?thesis by blast
qed

lemma outer_root_find_layer1:
  assumes "ctx_live h c" and "ctx_live h oc"
    and "\<not> (\<not> truthy h (ctx_get h c PARENT_COMP_KEY VNone) \<and> b = ISOLATED
            \<and> ctx_contains h c OUTER_ROOT_CTX_CONTEXT_KEY)"
    and "1 < length (ctx_objs h oc)"
  shows "\<exists>h'. set_outer_root_context b h c (Some oc) = Inr h'
           \<and> (\<forall>k. outer_root_find h' c k
                  = (case with_mappings h c (dict_objs h (ctx_objs h oc ! 1)) k of
                       Some v \<Rightarrow> Some v | None \<Rightarrow> builtins k))"
proof -
  let ?n = "dict_next h" and ?m = "ctx_next h"
  let ?l1 = "dict_objs h (ctx_objs h oc ! 1)"
  have base: "root_base b h c (Some oc) = (ctx_push (fst (Context_init h)) ?m ?l1, ?m)"
    by (rule root_base_layer1 [OF assms(2) assms(3) assms(4)])
  from outer_root_pushed [OF assms(1) base] obtain h' where
    res: "set_outer_root_context b h c (Some oc) = Inr h'"
    and f: "ctx_find h' c OUTER_ROOT_CTX_CONTEXT_KEY = Some (VCtx ?m)"
    and o: "ctx_objs h' ?m = [?n, Suc ?n]"
    and b0: "dict_objs h' ?n = builtins"
    and b1: "dict_objs h' (Suc ?n) = with_mappings h c ?l1"
    by blast
  have "outer_root_find h' c k
          = (case with_mappings h c ?l1 k of Some v \<Rightarrow> Some v | None \<Rightarrow> builtins k)" for k
    by (simp add: outer_root_find_def f ctx_find_two [OF o] b0 b1 split: option.splits)
  with res show ?thesis by blast
qed

lemma ex_first_live: "ctx_live ex_first 0" "ctx_live ex_first 1"
  by (simp_all add: ctx_live_def ex_first_def mk_heap_def)










lemma plain_keys:
  "''a'' \<noteq> SLOT_COMPONENT_ASSOC_KEY" "''a'' \<noteq> FILLED_SLOTS_CONTENT_CONTEXT_KEY"
  "''b'' \<noteq> SLOT_COMPONENT_ASSOC_KEY" "''b'' \<noteq> FILLED_SLOTS_CONTENT_CONTEXT_KEY"
  "''x'' \<noteq> SLOT_COMPONENT_ASSOC_KEY" "''x'' \<noteq> FILLED_SLOTS_CONTENT_CONTEXT_KEY"
  "''True'' \<noteq> SLOT_COMPONENT_ASSOC_KEY" "''True'' \<noteq> FILLED_SLOTS_CONTENT_CONTEXT_KEY"
  by (simp_all add: SLOT_COMPONENT_ASSOC_KEY_def FILLED_SLOTS_CONTENT_CONTEXT_KEY_def)


lemma ex_rendering_live0: "ctx_live ex_rendering 0"
  by (simp add: ctx_live_def ex_rendering_def mk_heap_def)

lemma ex_rendering_outer:
  "1 < length (ctx_objs ex_rendering 0)"
  "dict_objs ex_rendering (ctx_objs ex_rendering 0 ! 1) = [''a'' \<mapsto> VInt 1]"
  "dict_objs ex_rendering (ctx_objs ex_rendering 0 ! 0) = builtins"
  by (simp_all add: ex_rendering_def mk_heap_def)

lemma not_isolated:
  "\<not> (\<not> truthy h (ctx_get h c PARENT_COMP_KEY VNone) \<and> DEFAULT = ISOLATED
       \<and> ctx_contains h c OUTER_ROOT_CTX_CONTEXT_KEY)"
  by simp

theorem set_outer_root_context_layer_one_witness:
  "\<exists>h' r. set_outer_root_context DEFAULT ex_rendering 1 (Some 0) = Inr h'
         \<and> ctx_find h' 1 OUTER_ROOT_CTX_CONTEXT_KEY = Some (VCtx r)
         \<and> length (ctx_objs h' r) = 2
         \<and> ctx_find h' r ''a'' = Some (VInt 1)
         \<and> ctx_find h' r ''b'' = None"
proof -
  from set_outer_root_context_layer_one
    [OF ex_rendering_live ex_rendering_live0 not_isolated ex_rendering_outer(1)]
  obtain h' r where res: "set_outer_root_context DEFAULT ex_rendering 1 (Some 0) = Inr h'"
    and f: "ctx_find h' 1 OUTER_ROOT_CTX_CONTEXT_KEY = Some (VCtx r)"
    and l: "length (ctx_objs h' r) = 2"
    and e: "\<forall>k. k \<noteq> SLOT_COMPONENT_ASSOC_KEY \<and> k \<noteq> FILLED_SLOTS_CONTENT_CONTEXT_KEY
              \<and> builtins k = None
              \<longrightarrow> ctx_find h' r k = dict_objs ex_rendering (ctx_objs ex_rendering 0 ! 1) k"
    by blast
  have nb: "builtins ''a'' = None" "builtins ''b'' = None" by (simp_all add: builtins_def)
  from e plain_keys nb
  have "ctx_find h' r ''a'' = dict_objs ex_rendering (ctx_objs ex_rendering 0 ! 1) ''a''"
    "ctx_find h' r ''b'' = dict_objs ex_rendering (ctx_objs ex_rendering 0 ! 1) ''b''"
    by blast+
  then have "ctx_find h' r ''a'' = Some (VInt 1)" "ctx_find h' r ''b'' = None"
    by (simp_all only: ex_rendering_outer) simp_all
  with res f l show ?thesis by blast
qed

text \<open>
  The claim as stated fails on the two mapping keys and on the defaults: with the
  association map in the current scope and none in the outer scope's layer \<open>1\<close>, the
  stored context exposes the map; and it exposes \<^verbatim>\<open>True\<close>, which the outer scope has
  in layer \<open>0\<close> only.
\<close>

theorem outer_root_exposes_mappings_and_defaults:
  "(case set_outer_root_context DEFAULT ex_rendering 1 (Some 0) of
      Inl e \<Rightarrow> False
    | Inr h' \<Rightarrow> outer_root_find h' 1 SLOT_COMPONENT_ASSOC_KEY = Some (VDict 6)
               \<and> outer_root_find h' 1 ''True'' = Some (VBool True))
   \<and> 1 < length (ctx_objs ex_rendering 0)
   \<and> dict_objs ex_rendering (ctx_objs ex_rendering 0 ! 1) = [''a'' \<mapsto> VInt 1]
   \<and> dict_objs ex_rendering (ctx_objs ex_rendering 0 ! 0) ''True'' = Some (VBool True)"
proof -
  from outer_root_find_layer1
    [OF ex_rendering_live ex_rendering_live0 not_isolated ex_rendering_outer(1)]
  obtain h' where res: "set_outer_root_context DEFAULT ex_rendering 1 (Some 0) = Inr h'"
    and f: "\<forall>k. outer_root_find h' 1 k
              = (case with_mappings ex_rendering 1
                        (dict_objs ex_rendering (ctx_objs ex_rendering 0 ! 1)) k of
                   Some v \<Rightarrow> Some v | None \<Rightarrow> builtins k)"
    by blast
  have a: "outer_root_find h' 1 SLOT_COMPONENT_ASSOC_KEY = Some (VDict 6)"
    by (simp only: f with_mappings_assoc ex_rendering_assoc option.case)
  have t: "outer_root_find h' 1 ''True'' = Some (VBool True)"
    by (simp only: f with_mappings_other [OF plain_keys(7) plain_keys(8)] ex_rendering_outer)
       (simp add: builtins_def)
  have d0: "dict_objs ex_rendering (ctx_objs ex_rendering 0 ! 0) ''True'' = Some (VBool True)"
    by (simp only: ex_rendering_outer) (simp add: builtins_def)
  from res a t d0 ex_rendering_outer show ?thesis by (simp del: One_nat_def)
qed


section \<open>Entering a component\<close>

text \<open>
  \<open>writes_top K c h h'\<close> is the frame of the statements of \<^verbatim>\<open>prepare_context\<close>: the
  layers of \<open>c\<close> stay, and of the dicts of \<open>h\<close> only the last layer changes, and only
  at the keys in \<open>K\<close>.
\<close>

lemma writes_top_refl: "writes_top K c h h"
  by (simp add: writes_top_def)

lemma writes_top_trans:
  assumes "writes_top K c h h1" and "writes_top K' c h1 h2"
  shows "writes_top (K \<union> K') c h h2"
  using assms unfolding writes_top_def by auto

lemma writes_top_mono:
  assumes "writes_top K c h h'" and "K \<subseteq> K'"
  shows "writes_top K' c h h'"
  using assms unfolding writes_top_def by auto

lemma writes_top_live:
  assumes "ctx_live h c" and "writes_top K c h h'"
  shows "ctx_live h' c"
  using assms unfolding writes_top_def ctx_live_def list_all_iff by auto

lemma writes_top_objs: "writes_top K c h h' \<Longrightarrow> ctx_objs h' c = ctx_objs h c"
  by (simp add: writes_top_def)

lemma writes_top_find:
  assumes live: "ctx_live h c" and w: "writes_top K c h h'" and k: "k \<notin> K"
  shows "ctx_find h' c k = ctx_find h c k"
proof (rule ctx_find_cong)
  show "ctx_objs h' c = ctx_objs h c" using w by (rule writes_top_objs)
next
  fix d assume d: "d \<in> set (ctx_objs h c)"
  then have "d < dict_next h" using live ctx_live_layers by blast
  then show "dict_objs h' d k = dict_objs h d k"
    using w k unfolding writes_top_def by (cases "d = last (ctx_objs h c)") auto
qed

lemma writes_top_contains:
  assumes "ctx_live h c" and "writes_top K c h h'" and "k \<notin> K"
  shows "ctx_contains h' c k = ctx_contains h c k"
  by (simp add: ctx_contains_find writes_top_find [OF assms])

lemma writes_top_other:
  assumes "writes_top K c h h'" and "d < dict_next h" and "d \<noteq> last (ctx_objs h c)"
  shows "dict_objs h' d = dict_objs h d"
  using assms unfolding writes_top_def by auto

lemma writes_top_key:
  assumes "writes_top K c h h'" and "k \<notin> K"
  shows "dict_objs h' (last (ctx_objs h c)) k = dict_objs h (last (ctx_objs h c)) k"
  using assms unfolding writes_top_def by auto

lemma writes_top_next: "writes_top K c h h' \<Longrightarrow> dict_next h \<le> dict_next h'"
  by (simp add: writes_top_def)

lemma alloc_set_writes_top:
  assumes live: "ctx_live h c"
  shows "writes_top {k} c h
           (dict_setitem (fst (dict_alloc h d)) (last (ctx_objs h c)) k (VDict (dict_next h)))"
proof -
  have "last (ctx_objs h c) < dict_next h" using live ctx_live_top by simp
  then show ?thesis
    by (simp add: writes_top_def dict_setitem_simps dict_alloc_simps)
qed

text \<open>The two statements that initialise a mapping when no layer has its key.\<close>

lemma init_key_step:
  assumes live: "ctx_live g c"
  obtains g' where
    "(if \<not> ctx_contains g c K
      then (let (h', a) = dict_alloc g Map.empty in ctx_setitem h' c K (VDict a))
      else Inr g) = Inr g'"
    and "writes_top {K} c g g'"
    and "ctx_find g c K = None \<longrightarrow>
           dict_objs g' (last (ctx_objs g c)) K = Some (VDict (dict_next g))
           \<and> dict_objs g' (dict_next g) = Map.empty
           \<and> dict_next g < dict_next g'"
    and "ctx_find g c K \<noteq> None \<longrightarrow> g' = g"
proof (cases "ctx_find g c K")
  case None
  let ?top = "last (ctx_objs g c)"
  let ?g' = "dict_setitem (fst (dict_alloc g Map.empty)) ?top K (VDict (dict_next g))"
  have ne: "ctx_objs g c \<noteq> []" and top: "?top < dict_next g"
    using live ctx_live_top by auto
  have r: "(if \<not> ctx_contains g c K
         then (let (h', a) = dict_alloc g Map.empty in ctx_setitem h' c K (VDict a))
         else Inr g) = Inr ?g'"
    using None ne
    by (simp add: ctx_contains_find split_beta Let_def ctx_setitem_def dict_alloc_simps)
  have w: "writes_top {K} c g ?g'" by (rule alloc_set_writes_top [OF live])
  have "dict_objs ?g' ?top K = Some (VDict (dict_next g))"
    by (simp add: dict_setitem_simps)
  moreover have "dict_objs ?g' (dict_next g) = Map.empty"
    using top by (simp add: dict_setitem_simps dict_alloc_simps)
  moreover have "dict_next g < dict_next ?g'"
    by (simp add: dict_setitem_simps dict_alloc_simps)
  ultimately have i: "ctx_find g c K = None \<longrightarrow>
           dict_objs ?g' ?top K = Some (VDict (dict_next g))
           \<and> dict_objs ?g' (dict_next g) = Map.empty
           \<and> dict_next g < dict_next ?g'" by simp
  have s: "ctx_find g c K \<noteq> None \<longrightarrow> ?g' = g" using None by simp
  show thesis by (rule that [OF r w i s])
next
  case (Some v)
  then have r: "(if \<not> ctx_contains g c K
         then (let (h', a) = dict_alloc g Map.empty in ctx_setitem h' c K (VDict a))
         else Inr g) = Inr g"
    by (simp add: ctx_contains_find)
  have w: "writes_top {K} c g g" by (rule writes_top_refl)
  have i: "ctx_find g c K = None \<longrightarrow>
           dict_objs g (last (ctx_objs g c)) K = Some (VDict (dict_next g))
           \<and> dict_objs g (dict_next g) = Map.empty
           \<and> dict_next g < dict_next g" using Some by simp
  have s: "ctx_find g c K \<noteq> None \<longrightarrow> g = g" by simp
  show thesis by (rule that [OF r w i s])
qed

text \<open>The copy of the association map into the last layer inside a loop.\<close>

lemma forloop_step:
  assumes live: "ctx_live g c"
    and ok: "ctx_contains g c ''forloop'' \<longrightarrow> ctx_find g c SLOT_COMPONENT_ASSOC_KEY = Some (VDict x)"
  obtains g' where
    "(if ctx_contains g c ''forloop''
      then bind_err (ctx_getitem g c SLOT_COMPONENT_ASSOC_KEY)
             (\<lambda>assoc. bind_err (val_copy g assoc)
                (\<lambda>(h', a). bind_err (py_index (ctx_objs h' c) (- 1))
                   (\<lambda>latest_dict.
                      Inr (dict_setitem h' latest_dict SLOT_COMPONENT_ASSOC_KEY (VDict a)))))
      else Inr g) = Inr g'"
    and "writes_top {SLOT_COMPONENT_ASSOC_KEY} c g g'"
    and "ctx_contains g c ''forloop'' \<longrightarrow>
           dict_objs g' (last (ctx_objs g c)) SLOT_COMPONENT_ASSOC_KEY = Some (VDict (dict_next g))
           \<and> dict_objs g' (dict_next g) = dict_objs g x
           \<and> dict_next g < dict_next g'"
    and "\<not> ctx_contains g c ''forloop'' \<longrightarrow> g' = g"
proof (cases "ctx_contains g c ''forloop''")
  case True
  let ?A = SLOT_COMPONENT_ASSOC_KEY
  let ?top = "last (ctx_objs g c)"
  let ?g' = "dict_setitem (fst (dict_alloc g (dict_objs g x))) ?top ?A (VDict (dict_next g))"
  have ne: "ctx_objs g c \<noteq> []" and top: "?top < dict_next g"
    using live ctx_live_top by auto
  have vis: "ctx_find g c ?A = Some (VDict x)" using ok True by simp
  have r: "(if ctx_contains g c ''forloop''
               then bind_err (ctx_getitem g c ?A)
                      (\<lambda>assoc. bind_err (val_copy g assoc)
                         (\<lambda>(h', a). bind_err (py_index (ctx_objs h' c) (- 1))
                            (\<lambda>latest_dict. Inr (dict_setitem h' latest_dict ?A (VDict a)))))
               else Inr g) = Inr ?g'"
    using True ne
    by (simp add: ctx_getitem_def vis bind_err_def val_copy_def dict_alloc_def py_index_last)
  have w: "writes_top {?A} c g ?g'" by (rule alloc_set_writes_top [OF live])
  have "dict_objs ?g' ?top ?A = Some (VDict (dict_next g))"
    by (simp add: dict_setitem_simps)
  moreover have "dict_objs ?g' (dict_next g) = dict_objs g x"
    using top by (simp add: dict_setitem_simps dict_alloc_simps)
  moreover have "dict_next g < dict_next ?g'"
    by (simp add: dict_setitem_simps dict_alloc_simps)
  ultimately have i: "ctx_contains g c ''forloop'' \<longrightarrow>
           dict_objs ?g' ?top ?A = Some (VDict (dict_next g))
           \<and> dict_objs ?g' (dict_next g) = dict_objs g x
           \<and> dict_next g < dict_next ?g'" by simp
  have s: "\<not> ctx_contains g c ''forloop'' \<longrightarrow> ?g' = g" using True by simp
  show thesis by (rule that [OF r w i s])
next
  case False
  let ?A = SLOT_COMPONENT_ASSOC_KEY
  have r: "(if ctx_contains g c ''forloop''
               then bind_err (ctx_getitem g c ?A)
                      (\<lambda>assoc. bind_err (val_copy g assoc)
                         (\<lambda>(h', a). bind_err (py_index (ctx_objs h' c) (- 1))
                            (\<lambda>latest_dict. Inr (dict_setitem h' latest_dict ?A (VDict a)))))
               else Inr g) = Inr g"
    using False by simp
  have w: "writes_top {?A} c g g" by (rule writes_top_refl)
  have i: "ctx_contains g c ''forloop'' \<longrightarrow>
           dict_objs g (last (ctx_objs g c)) ?A = Some (VDict (dict_next g))
           \<and> dict_objs g (dict_next g) = dict_objs g x
           \<and> dict_next g < dict_next g" using False by simp
  have s: "\<not> ctx_contains g c ''forloop'' \<longrightarrow> g = g" by simp
  show thesis by (rule that [OF r w i s])
qed

lemma set_component_id_step:
  assumes ne: "ctx_objs g c \<noteq> []"
  obtains g' where "set_component_id g c component_id = Inr g'"
    and "writes_top {PARENT_COMP_KEY, CURRENT_COMP_KEY} c g g'"
    and "dict_objs g' (last (ctx_objs g c)) PARENT_COMP_KEY
           = Some (ctx_get g c CURRENT_COMP_KEY VNone)"
    and "dict_objs g' (last (ctx_objs g c)) CURRENT_COMP_KEY = Some (VStr component_id)"
proof -
  let ?top = "last (ctx_objs g c)"
  let ?g1 = "dict_setitem g ?top PARENT_COMP_KEY (ctx_get g c CURRENT_COMP_KEY VNone)"
  let ?g' = "dict_setitem ?g1 ?top CURRENT_COMP_KEY (VStr component_id)"
  have r: "set_component_id g c component_id = Inr ?g'"
    using ne by (simp add: set_component_id_def ctx_setitem_def bind_err_def dict_setitem_simps)
  have w: "writes_top {PARENT_COMP_KEY, CURRENT_COMP_KEY} c g ?g'"
    by (simp add: writes_top_def dict_setitem_simps)
  have p: "dict_objs ?g' ?top PARENT_COMP_KEY = Some (ctx_get g c CURRENT_COMP_KEY VNone)"
    using keys_distinct by (simp add: dict_setitem_simps)
  have q: "dict_objs ?g' ?top CURRENT_COMP_KEY = Some (VStr component_id)"
    by (simp add: dict_setitem_simps)
  show thesis by (rule that [OF r w p q])
qed

lemma outer_step:
  assumes live: "ctx_live h c"
  obtains h1 where
    "(case outer_context of
        Some oc \<Rightarrow> set_outer_root_context b h c (Some oc)
      | None \<Rightarrow> Inr h) = Inr h1"
    and "writes_top {OUTER_ROOT_CTX_CONTEXT_KEY} c h h1"
proof (cases outer_context)
  case None
  have r: "(case outer_context of
        Some oc \<Rightarrow> set_outer_root_context b h c (Some oc)
      | None \<Rightarrow> Inr h) = Inr h" using None by simp
  show thesis by (rule that [OF r writes_top_refl])
next
  case (Some oc)
  from set_outer_root_context_ok [OF live, of b "Some oc"]
  obtain h' where e: "set_outer_root_context b h c (Some oc) = Inr h'"
    and w: "writes_top {OUTER_ROOT_CTX_CONTEXT_KEY} c h h'"
    by (elim exE conjE)
  have r: "(case outer_context of
        Some oc \<Rightarrow> set_outer_root_context b h c (Some oc)
      | None \<Rightarrow> Inr h) = Inr h'" using Some e by simp
  show thesis by (rule that [OF r w])
qed

text \<open>What \<^verbatim>\<open>prepare_context\<close> does to a live scope, statement by statement.\<close>

lemma prepare_context_result:
  assumes live: "ctx_live h c"
    and ok: "ctx_contains h c ''forloop'' \<longrightarrow>
               (\<forall>v. ctx_find h c SLOT_COMPONENT_ASSOC_KEY = Some v \<longrightarrow> (\<exists>a. v = VDict a))"
  shows "\<exists>h'. prepare_context b h c outer cid = Inr h'
     \<and> writes_top {OUTER_ROOT_CTX_CONTEXT_KEY, SLOT_COMPONENT_ASSOC_KEY,
                    FILLED_SLOTS_CONTENT_CONTEXT_KEY, PARENT_COMP_KEY, CURRENT_COMP_KEY} c h h'
     \<and> dict_objs h' (last (ctx_objs h c)) PARENT_COMP_KEY = Some (ctx_get h c CURRENT_COMP_KEY VNone)
     \<and> dict_objs h' (last (ctx_objs h c)) CURRENT_COMP_KEY = Some (VStr cid)
     \<and> (ctx_contains h c ''forloop'' \<longrightarrow>
          (\<exists>a'. dict_next h \<le> a' \<and> a' < dict_next h'
             \<and> dict_objs h' (last (ctx_objs h c)) SLOT_COMPONENT_ASSOC_KEY = Some (VDict a')
             \<and> (ctx_find h c SLOT_COMPONENT_ASSOC_KEY = None \<longrightarrow> dict_objs h' a' = Map.empty)
             \<and> (\<forall>a. ctx_find h c SLOT_COMPONENT_ASSOC_KEY = Some (VDict a)
                      \<and> a < dict_next h \<and> a \<noteq> last (ctx_objs h c)
                    \<longrightarrow> dict_objs h' a' = dict_objs h a)))
     \<and> (\<not> ctx_contains h c ''forloop'' \<and> ctx_find h c SLOT_COMPONENT_ASSOC_KEY \<noteq> None \<longrightarrow>
          dict_objs h' (last (ctx_objs h c)) SLOT_COMPONENT_ASSOC_KEY
            = dict_objs h (last (ctx_objs h c)) SLOT_COMPONENT_ASSOC_KEY)"
proof -
  let ?A = SLOT_COMPONENT_ASSOC_KEY
  let ?F = FILLED_SLOTS_CONTENT_CONTEXT_KEY
  let ?O = OUTER_ROOT_CTX_CONTEXT_KEY
  let ?top = "last (ctx_objs h c)"
  have top: "?top < dict_next h" and ne: "ctx_objs h c \<noteq> []"
    using live ctx_live_top by auto
  obtain h1 where e1: "(case outer of
                 Some oc \<Rightarrow> set_outer_root_context b h c (Some oc)
               | None \<Rightarrow> Inr h) = Inr h1"
    and w1: "writes_top {?O} c h h1"
    by (rule outer_step [OF live])
  have live1: "ctx_live h1 c" using live w1 by (rule writes_top_live)
  have o1: "ctx_objs h1 c = ctx_objs h c" using w1 by (rule writes_top_objs)
  have n1: "dict_next h \<le> dict_next h1" using w1 by (rule writes_top_next)
  have fA1: "ctx_find h1 c ?A = ctx_find h c ?A"
    using keys_distinct by (intro writes_top_find [OF live w1]) simp
  obtain h2 where e2: "(if \<not> ctx_contains h1 c ?A
               then (let (h', a) = dict_alloc h1 Map.empty in ctx_setitem h' c ?A (VDict a))
               else Inr h1) = Inr h2"
    and w2: "writes_top {?A} c h1 h2"
    and i2: "ctx_find h1 c ?A = None \<longrightarrow>
                 dict_objs h2 (last (ctx_objs h1 c)) ?A = Some (VDict (dict_next h1))
                 \<and> dict_objs h2 (dict_next h1) = Map.empty
                 \<and> dict_next h1 < dict_next h2"
    and s2: "ctx_find h1 c ?A \<noteq> None \<longrightarrow> h2 = h1"
    by (rule init_key_step [OF live1])
  have live2: "ctx_live h2 c" using live1 w2 by (rule writes_top_live)
  have o2: "ctx_objs h2 c = ctx_objs h c" using writes_top_objs [OF w2] o1 by simp
  have n2: "dict_next h \<le> dict_next h2" using writes_top_next [OF w2] n1 by simp
  obtain h3 where e3: "(if \<not> ctx_contains h2 c ?F
               then (let (h', a) = dict_alloc h2 Map.empty in ctx_setitem h' c ?F (VDict a))
               else Inr h2) = Inr h3"
    and w3: "writes_top {?F} c h2 h3"
    by (rule init_key_step [OF live2])
  have live3: "ctx_live h3 c" using live2 w3 by (rule writes_top_live)
  have o3: "ctx_objs h3 c = ctx_objs h c" using writes_top_objs [OF w3] o2 by simp
  have n3: "dict_next h \<le> dict_next h3" using writes_top_next [OF w3] n2 by simp
  have fA3: "ctx_find h3 c ?A = ctx_find h2 c ?A"
    using keys_distinct by (intro writes_top_find [OF live2 w3]) simp
  have kA3: "dict_objs h3 ?top ?A = dict_objs h2 ?top ?A"
    using writes_top_key [OF w3, of ?A] keys_distinct o2 by simp
  have w03: "writes_top {?O, ?A, ?F} c h h3"
    using writes_top_trans [OF writes_top_trans [OF w1 w2] w3]
    by (rule writes_top_mono) auto
  have loop3: "ctx_contains h3 c ''forloop'' = ctx_contains h c ''forloop''"
    using keys_distinct by (intro writes_top_contains [OF live w03]) auto
  have "\<exists>x. (ctx_contains h c ''forloop'' \<longrightarrow> ctx_find h3 c ?A = Some (VDict x))
           \<and> (ctx_find h c ?A = None \<longrightarrow> dict_objs h3 x = Map.empty)
           \<and> (\<forall>a. ctx_find h c ?A = Some (VDict a) \<and> a < dict_next h \<and> a \<noteq> ?top
                  \<longrightarrow> dict_objs h3 x = dict_objs h a)"
  proof (cases "ctx_find h c ?A")
    case None
    then have f1: "ctx_find h1 c ?A = None" using fA1 by simp
    from i2 f1 o1 have t2: "dict_objs h2 ?top ?A = Some (VDict (dict_next h1))"
      and c2: "dict_objs h2 (dict_next h1) = Map.empty"
      and lt: "dict_next h1 < dict_next h2" by simp_all
    have "ctx_find h2 c ?A = Some (VDict (dict_next h1))"
      by (rule ctx_find_top) (simp_all add: o2 ne t2)
    then have v3: "ctx_find h3 c ?A = Some (VDict (dict_next h1))" using fA3 by simp
    have "dict_next h1 \<noteq> last (ctx_objs h2 c)" using top n1 o2 by simp
    then have "dict_objs h3 (dict_next h1) = dict_objs h2 (dict_next h1)"
      using writes_top_other [OF w3 lt] by simp
    then have "dict_objs h3 (dict_next h1) = Map.empty" using c2 by simp
    with v3 None show ?thesis by auto
  next
    case (Some v)
    then have "ctx_find h1 c ?A \<noteq> None" using fA1 by simp
    then have eq: "h2 = h1" using s2 by simp
    have v3: "ctx_find h3 c ?A = Some v" using fA3 eq fA1 Some by simp
    show ?thesis
    proof (cases v)
      case (VDict a)
      have "a < dict_next h \<and> a \<noteq> ?top \<longrightarrow> dict_objs h3 a = dict_objs h a"
      proof
        assume a: "a < dict_next h \<and> a \<noteq> ?top"
        then show "dict_objs h3 a = dict_objs h a"
          using writes_top_other [OF w03, of a] by simp
      qed
      with v3 VDict Some show ?thesis by auto
    next
      case VNone with Some ok show ?thesis by auto
    next
      case (VBool x) with Some ok show ?thesis by auto
    next
      case (VInt x) with Some ok show ?thesis by auto
    next
      case (VStr x) with Some ok show ?thesis by auto
    next
      case (VCtx x) with Some ok show ?thesis by auto
    next
      case (VFill x) with Some ok show ?thesis by auto
    qed
  qed
  then obtain x where vis: "ctx_contains h c ''forloop'' \<longrightarrow> ctx_find h3 c ?A = Some (VDict x)"
    and new: "ctx_find h c ?A = None \<longrightarrow> dict_objs h3 x = Map.empty"
    and old: "\<forall>a. ctx_find h c ?A = Some (VDict a) \<and> a < dict_next h \<and> a \<noteq> ?top
                  \<longrightarrow> dict_objs h3 x = dict_objs h a"
    by (elim exE conjE)
  have ok3: "ctx_contains h3 c ''forloop'' \<longrightarrow> ctx_find h3 c ?A = Some (VDict x)"
    using vis loop3 by simp
  obtain h4 where e4: "(if ctx_contains h3 c ''forloop''
               then bind_err (ctx_getitem h3 c ?A)
                      (\<lambda>assoc. bind_err (val_copy h3 assoc)
                         (\<lambda>(h', a). bind_err (py_index (ctx_objs h' c) (- 1))
                            (\<lambda>latest_dict.
                               Inr (dict_setitem h' latest_dict ?A (VDict a)))))
               else Inr h3) = Inr h4"
    and w4: "writes_top {?A} c h3 h4"
    and i4: "ctx_contains h3 c ''forloop'' \<longrightarrow>
                 dict_objs h4 (last (ctx_objs h3 c)) ?A = Some (VDict (dict_next h3))
                 \<and> dict_objs h4 (dict_next h3) = dict_objs h3 x
                 \<and> dict_next h3 < dict_next h4"
    and s4: "\<not> ctx_contains h3 c ''forloop'' \<longrightarrow> h4 = h3"
    by (rule forloop_step [OF live3 ok3])
  have live4: "ctx_live h4 c" using live3 w4 by (rule writes_top_live)
  have o4: "ctx_objs h4 c = ctx_objs h c" using writes_top_objs [OF w4] o3 by simp
  have w04: "writes_top {?O, ?A, ?F} c h h4"
    using writes_top_trans [OF w03 w4] by (rule writes_top_mono) auto
  have fC4: "ctx_find h4 c CURRENT_COMP_KEY = ctx_find h c CURRENT_COMP_KEY"
    using keys_distinct by (intro writes_top_find [OF live w04]) auto
  have ne4: "ctx_objs h4 c \<noteq> []" using o4 ne by simp
  obtain h5 where e5: "set_component_id h4 c cid = Inr h5"
    and w5: "writes_top {PARENT_COMP_KEY, CURRENT_COMP_KEY} c h4 h5"
    and p5: "dict_objs h5 (last (ctx_objs h4 c)) PARENT_COMP_KEY
               = Some (ctx_get h4 c CURRENT_COMP_KEY VNone)"
    and c5: "dict_objs h5 (last (ctx_objs h4 c)) CURRENT_COMP_KEY = Some (VStr cid)"
    by (rule set_component_id_step [OF ne4])
  have kA5: "dict_objs h5 ?top ?A = dict_objs h4 ?top ?A"
    using writes_top_key [OF w5, of ?A] keys_distinct o4 by simp
  have n5: "dict_next h4 \<le> dict_next h5" using w5 by (rule writes_top_next)
  have r: "prepare_context b h c outer cid = Inr h5"
    by (simp only: prepare_context_def e1 bind_err_Inr e2 e3 e4 e5)
  have w: "writes_top {?O, ?A, ?F, PARENT_COMP_KEY, CURRENT_COMP_KEY} c h h5"
    using writes_top_trans [OF w04 w5] by (rule writes_top_mono) auto
  have p: "dict_objs h5 ?top PARENT_COMP_KEY = Some (ctx_get h c CURRENT_COMP_KEY VNone)"
    using p5 o4 fC4 by (simp add: ctx_get_def)
  have cur: "dict_objs h5 ?top CURRENT_COMP_KEY = Some (VStr cid)"
    using c5 o4 by simp
  have inloop: "ctx_contains h c ''forloop'' \<longrightarrow>
          (\<exists>a'. dict_next h \<le> a' \<and> a' < dict_next h5
             \<and> dict_objs h5 ?top ?A = Some (VDict a')
             \<and> (ctx_find h c ?A = None \<longrightarrow> dict_objs h5 a' = Map.empty)
             \<and> (\<forall>a. ctx_find h c ?A = Some (VDict a) \<and> a < dict_next h \<and> a \<noteq> ?top
                    \<longrightarrow> dict_objs h5 a' = dict_objs h a))"
  proof
    assume "ctx_contains h c ''forloop''"
    then have l3: "ctx_contains h3 c ''forloop''" using loop3 by simp
    from i4 l3 o3 have t4: "dict_objs h4 ?top ?A = Some (VDict (dict_next h3))"
      and c4: "dict_objs h4 (dict_next h3) = dict_objs h3 x"
      and lt: "dict_next h3 < dict_next h4" by simp_all
    have "dict_next h3 \<noteq> last (ctx_objs h4 c)" using top n3 o4 by simp
    then have same: "dict_objs h5 (dict_next h3) = dict_objs h4 (dict_next h3)"
      using writes_top_other [OF w5 lt] by simp
    have f1: "dict_next h3 < dict_next h5" using lt n5 by simp
    have f2: "dict_objs h5 ?top ?A = Some (VDict (dict_next h3))" using kA5 t4 by simp
    have f3: "ctx_find h c ?A = None \<longrightarrow> dict_objs h5 (dict_next h3) = Map.empty"
      using same c4 new by simp
    have f4: "\<forall>a. ctx_find h c ?A = Some (VDict a) \<and> a < dict_next h \<and> a \<noteq> ?top
                    \<longrightarrow> dict_objs h5 (dict_next h3) = dict_objs h a"
      using same c4 old by simp
    show "\<exists>a'. dict_next h \<le> a' \<and> a' < dict_next h5
             \<and> dict_objs h5 ?top ?A = Some (VDict a')
             \<and> (ctx_find h c ?A = None \<longrightarrow> dict_objs h5 a' = Map.empty)
             \<and> (\<forall>a. ctx_find h c ?A = Some (VDict a) \<and> a < dict_next h \<and> a \<noteq> ?top
                    \<longrightarrow> dict_objs h5 a' = dict_objs h a)"
      by (rule exI [of _ "dict_next h3"]) (intro conjI n3 f1 f2 f3 f4)
  qed
  have noloop: "\<not> ctx_contains h c ''forloop'' \<and> ctx_find h c ?A \<noteq> None \<longrightarrow>
          dict_objs h5 ?top ?A = dict_objs h ?top ?A"
  proof
    assume a: "\<not> ctx_contains h c ''forloop'' \<and> ctx_find h c ?A \<noteq> None"
    then have "h4 = h3" using s4 loop3 by simp
    moreover have "h2 = h1" using a s2 fA1 by simp
    moreover have "dict_objs h1 ?top ?A = dict_objs h ?top ?A"
      using writes_top_key [OF w1, of ?A] keys_distinct by simp
    ultimately show "dict_objs h5 ?top ?A = dict_objs h ?top ?A"
      using kA5 kA3 by simp
  qed
  show ?thesis by (rule exI [of _ h5]) (intro conjI r w p cur inloop noloop)
qed

lemma prepare_context_enter:
  assumes live: "ctx_live h c"
    and ok: "ctx_contains h c ''forloop'' \<longrightarrow>
               (\<forall>v. ctx_find h c SLOT_COMPONENT_ASSOC_KEY = Some v \<longrightarrow> (\<exists>a. v = VDict a))"
  obtains h' where "prepare_context b h c outer cid = Inr h'"
    and "ctx_live h' c"
    and "ctx_contains h' c ''forloop'' \<longrightarrow>
           (\<forall>v. ctx_find h' c SLOT_COMPONENT_ASSOC_KEY = Some v \<longrightarrow> (\<exists>a. v = VDict a))"
    and "ctx_objs h' c = ctx_objs h c"
    and "dict_next h \<le> dict_next h'"
    and "\<forall>d. d < dict_next h \<and> d \<noteq> last (ctx_objs h c) \<longrightarrow> dict_objs h' d = dict_objs h d"
    and "dict_objs h' (last (ctx_objs h c)) PARENT_COMP_KEY
           = Some (ctx_get h c CURRENT_COMP_KEY VNone)"
    and "dict_objs h' (last (ctx_objs h c)) CURRENT_COMP_KEY = Some (VStr cid)"
proof -
  let ?A = SLOT_COMPONENT_ASSOC_KEY
  let ?top = "last (ctx_objs h c)"
  let ?K = "{OUTER_ROOT_CTX_CONTEXT_KEY, ?A, FILLED_SLOTS_CONTENT_CONTEXT_KEY,
             PARENT_COMP_KEY, CURRENT_COMP_KEY}"
  from prepare_context_result [OF live ok, of b outer cid]
  obtain h' where r: "prepare_context b h c outer cid = Inr h'"
    and w: "writes_top ?K c h h'"
    and p: "dict_objs h' ?top PARENT_COMP_KEY = Some (ctx_get h c CURRENT_COMP_KEY VNone)"
    and q: "dict_objs h' ?top CURRENT_COMP_KEY = Some (VStr cid)"
    and il: "ctx_contains h c ''forloop'' \<longrightarrow>
          (\<exists>a'. dict_next h \<le> a' \<and> a' < dict_next h'
             \<and> dict_objs h' ?top ?A = Some (VDict a')
             \<and> (ctx_find h c ?A = None \<longrightarrow> dict_objs h' a' = Map.empty)
             \<and> (\<forall>a. ctx_find h c ?A = Some (VDict a) \<and> a < dict_next h \<and> a \<noteq> ?top
                    \<longrightarrow> dict_objs h' a' = dict_objs h a))"
    by (elim exE conjE)
  have live': "ctx_live h' c" using live w by (rule writes_top_live)
  have o: "ctx_objs h' c = ctx_objs h c" using w by (rule writes_top_objs)
  have n: "dict_next h \<le> dict_next h'" using w by (rule writes_top_next)
  have ne: "ctx_objs h c \<noteq> []" using live ctx_live_top by simp
  have loop: "ctx_contains h' c ''forloop'' = ctx_contains h c ''forloop''"
    using keys_distinct by (intro writes_top_contains [OF live w]) auto
  have ok': "ctx_contains h' c ''forloop'' \<longrightarrow>
           (\<forall>v. ctx_find h' c ?A = Some v \<longrightarrow> (\<exists>a. v = VDict a))"
  proof
    assume "ctx_contains h' c ''forloop''"
    then have "ctx_contains h c ''forloop''" using loop by simp
    with il have "\<exists>a'. dict_objs h' ?top ?A = Some (VDict a')" by auto
    then obtain a' where t: "dict_objs h' ?top ?A = Some (VDict a')" ..
    have "ctx_find h' c ?A = Some (VDict a')"
      by (rule ctx_find_top) (simp_all add: o ne t)
    then show "\<forall>v. ctx_find h' c ?A = Some v \<longrightarrow> (\<exists>a. v = VDict a)" by simp
  qed
  have fr: "\<forall>d. d < dict_next h \<and> d \<noteq> ?top \<longrightarrow> dict_objs h' d = dict_objs h d"
    using w by (simp add: writes_top_def)
  show thesis by (rule that [OF r live' ok' o n fr p q])
qed

lemma ctx_push_live: "ctx_live h c \<Longrightarrow> ctx_live (ctx_push h c d) c"
  by (auto simp: ctx_live_def ctx_push_simps list_all_iff less_Suc_eq)

lemma ctx_push_find_empty:
  assumes live: "ctx_live h c"
  shows "ctx_find (ctx_push h c Map.empty) c k = ctx_find h c k"
proof -
  let ?g = "ctx_push h c Map.empty"
  have "find_key ?g (rev (ctx_objs h c)) k = find_key h (rev (ctx_objs h c)) k"
  proof (rule find_key_cong)
    fix d assume "d \<in> set (rev (ctx_objs h c))"
    then have "d < dict_next h" using ctx_live_layers [OF live] by simp
    then show "dict_objs ?g d k = dict_objs h d k" by (simp add: ctx_push_simps)
  qed
  then show ?thesis by (simp add: ctx_find_def ctx_push_simps)
qed

lemma ctx_push_contains_empty:
  "ctx_live h c \<Longrightarrow> ctx_contains (ctx_push h c Map.empty) c k = ctx_contains h c k"
  by (simp add: ctx_contains_find ctx_push_find_empty)

lemma ctx_pop_result:
  assumes "ctx_objs h c = ls @ [x, y]"
  shows "ctx_pop h c = Inr (h\<lparr>ctx_objs := (ctx_objs h)(c := ls @ [x])\<rparr>)"
  using assms by (simp add: ctx_pop_def butlast_append)

text \<open>Entering three nested components, each on a layer of its own.\<close>

lemma nested_enter_chain:
  assumes live: "ctx_live h c"
    and ok: "ctx_contains h c ''forloop'' \<longrightarrow>
               (\<forall>v. ctx_find h c SLOT_COMPONENT_ASSOC_KEY = Some v \<longrightarrow> (\<exists>a. v = VDict a))"
  shows "\<exists>hA hB hC.
           prepare_context b h c outerA idA = Inr hA
         \<and> prepare_context b (ctx_push hA c Map.empty) c outerB idB = Inr hB
         \<and> prepare_context b (ctx_push hB c Map.empty) c outerC idC = Inr hC
         \<and> ctx_find hC c CURRENT_COMP_KEY = Some (VStr idC)
         \<and> ctx_find hC c PARENT_COMP_KEY = Some (VStr idB)
         \<and> (\<exists>h1. ctx_pop hC c = Inr h1
              \<and> ctx_find h1 c CURRENT_COMP_KEY = Some (VStr idB)
              \<and> ctx_find h1 c PARENT_COMP_KEY = Some (VStr idA)
              \<and> (\<exists>h0. ctx_pop h1 c = Inr h0
                   \<and> ctx_find h0 c CURRENT_COMP_KEY = Some (VStr idA)
                   \<and> ctx_find h0 c PARENT_COMP_KEY = Some (ctx_get h c CURRENT_COMP_KEY VNone)))"
proof -
  let ?A = SLOT_COMPONENT_ASSOC_KEY
  let ?L = "ctx_objs h c"
  let ?lA = "last ?L"
  have ne: "?L \<noteq> []" and lA: "?lA < dict_next h" using live ctx_live_top by auto
  obtain hA where rA: "prepare_context b h c outerA idA = Inr hA"
    and liveA: "ctx_live hA c"
    and okA: "ctx_contains hA c ''forloop'' \<longrightarrow>
           (\<forall>v. ctx_find hA c ?A = Some v \<longrightarrow> (\<exists>a. v = VDict a))"
    and oA: "ctx_objs hA c = ?L"
    and nA: "dict_next h \<le> dict_next hA"
    and pA: "dict_objs hA ?lA PARENT_COMP_KEY = Some (ctx_get h c CURRENT_COMP_KEY VNone)"
    and cA: "dict_objs hA ?lA CURRENT_COMP_KEY = Some (VStr idA)"
    by (rule prepare_context_enter [OF live ok])
  let ?gA = "ctx_push hA c Map.empty"
  let ?nA = "dict_next hA"
  have liveGA: "ctx_live ?gA c" using liveA by (rule ctx_push_live)
  have okGA: "ctx_contains ?gA c ''forloop'' \<longrightarrow>
           (\<forall>v. ctx_find ?gA c ?A = Some v \<longrightarrow> (\<exists>a. v = VDict a))"
    using okA by (simp add: ctx_push_contains_empty [OF liveA] ctx_push_find_empty [OF liveA])
  have oGA: "ctx_objs ?gA c = ?L @ [?nA]" by (simp add: ctx_push_simps oA)
  have "ctx_find hA c CURRENT_COMP_KEY = Some (VStr idA)"
    by (rule ctx_find_top) (simp_all add: oA ne cA)
  then have curGA: "ctx_get ?gA c CURRENT_COMP_KEY VNone = VStr idA"
    by (simp add: ctx_get_def ctx_push_find_empty [OF liveA])
  obtain hB where rB: "prepare_context b ?gA c outerB idB = Inr hB"
    and liveB: "ctx_live hB c"
    and okB: "ctx_contains hB c ''forloop'' \<longrightarrow>
           (\<forall>v. ctx_find hB c ?A = Some v \<longrightarrow> (\<exists>a. v = VDict a))"
    and oB: "ctx_objs hB c = ctx_objs ?gA c"
    and nB: "dict_next ?gA \<le> dict_next hB"
    and frB: "\<forall>d. d < dict_next ?gA \<and> d \<noteq> last (ctx_objs ?gA c)
                \<longrightarrow> dict_objs hB d = dict_objs ?gA d"
    and pB: "dict_objs hB (last (ctx_objs ?gA c)) PARENT_COMP_KEY
               = Some (ctx_get ?gA c CURRENT_COMP_KEY VNone)"
    and cB: "dict_objs hB (last (ctx_objs ?gA c)) CURRENT_COMP_KEY = Some (VStr idB)"
    by (rule prepare_context_enter [OF liveGA okGA])
  have oB': "ctx_objs hB c = ?L @ [?nA]" using oB oGA by simp
  have pB': "dict_objs hB ?nA PARENT_COMP_KEY = Some (VStr idA)"
    using pB curGA by (simp add: oGA)
  have cB': "dict_objs hB ?nA CURRENT_COMP_KEY = Some (VStr idB)"
    using cB by (simp add: oGA)
  have nAB: "?nA < dict_next hB" using nB by (simp add: ctx_push_simps)
  have lAB: "dict_objs hB ?lA = dict_objs hA ?lA"
  proof -
    have "?lA < dict_next ?gA \<and> ?lA \<noteq> last (ctx_objs ?gA c)"
      using lA nA by (simp add: ctx_push_simps oGA)
    then have "dict_objs hB ?lA = dict_objs ?gA ?lA" using frB by blast
    then show ?thesis using lA nA by (simp add: ctx_push_simps)
  qed
  let ?gB = "ctx_push hB c Map.empty"
  let ?nB = "dict_next hB"
  have liveGB: "ctx_live ?gB c" using liveB by (rule ctx_push_live)
  have okGB: "ctx_contains ?gB c ''forloop'' \<longrightarrow>
           (\<forall>v. ctx_find ?gB c ?A = Some v \<longrightarrow> (\<exists>a. v = VDict a))"
    using okB by (simp add: ctx_push_contains_empty [OF liveB] ctx_push_find_empty [OF liveB])
  have oGB: "ctx_objs ?gB c = ?L @ [?nA, ?nB]" by (simp add: ctx_push_simps oB')
  have "ctx_find hB c CURRENT_COMP_KEY = Some (VStr idB)"
    by (rule ctx_find_top) (simp_all add: oB' cB')
  then have curGB: "ctx_get ?gB c CURRENT_COMP_KEY VNone = VStr idB"
    by (simp add: ctx_get_def ctx_push_find_empty [OF liveB])
  obtain hC where rC: "prepare_context b ?gB c outerC idC = Inr hC"
    and oC: "ctx_objs hC c = ctx_objs ?gB c"
    and frC: "\<forall>d. d < dict_next ?gB \<and> d \<noteq> last (ctx_objs ?gB c)
                \<longrightarrow> dict_objs hC d = dict_objs ?gB d"
    and pC: "dict_objs hC (last (ctx_objs ?gB c)) PARENT_COMP_KEY
               = Some (ctx_get ?gB c CURRENT_COMP_KEY VNone)"
    and cC: "dict_objs hC (last (ctx_objs ?gB c)) CURRENT_COMP_KEY = Some (VStr idC)"
    by (rule prepare_context_enter [OF liveGB okGB])
  have oC': "ctx_objs hC c = ?L @ [?nA, ?nB]" using oC oGB by simp
  have pC': "dict_objs hC ?nB PARENT_COMP_KEY = Some (VStr idB)"
    using pC curGB by (simp add: oGB)
  have cC': "dict_objs hC ?nB CURRENT_COMP_KEY = Some (VStr idC)"
    using cC by (simp add: oGB)
  have fC1: "ctx_find hC c CURRENT_COMP_KEY = Some (VStr idC)"
    by (rule ctx_find_top) (simp_all add: oC' cC')
  have fC2: "ctx_find hC c PARENT_COMP_KEY = Some (VStr idB)"
    by (rule ctx_find_top) (simp_all add: oC' pC')
  have nAC: "dict_objs hC ?nA = dict_objs hB ?nA"
  proof -
    have "?nA < dict_next ?gB \<and> ?nA \<noteq> last (ctx_objs ?gB c)"
      using nAB by (simp add: ctx_push_simps oGB)
    then have "dict_objs hC ?nA = dict_objs ?gB ?nA" using frC by blast
    then show ?thesis using nAB by (simp add: ctx_push_simps)
  qed
  have lAC: "dict_objs hC ?lA = dict_objs hA ?lA"
  proof -
    have lt: "?lA < dict_next hB" using lA nA nAB by simp
    then have "?lA < dict_next ?gB \<and> ?lA \<noteq> last (ctx_objs ?gB c)"
      by (simp add: ctx_push_simps oGB)
    then have "dict_objs hC ?lA = dict_objs ?gB ?lA" using frC by blast
    then show ?thesis using lt lAB by (simp add: ctx_push_simps)
  qed
  let ?h1 = "hC\<lparr>ctx_objs := (ctx_objs hC)(c := ?L @ [?nA])\<rparr>"
  have r1: "ctx_pop hC c = Inr ?h1" using oC' by (rule ctx_pop_result)
  have f11: "ctx_find ?h1 c CURRENT_COMP_KEY = Some (VStr idB)"
    by (rule ctx_find_top) (simp_all add: nAC cB')
  have f12: "ctx_find ?h1 c PARENT_COMP_KEY = Some (VStr idA)"
    by (rule ctx_find_top) (simp_all add: nAC pB')
  let ?h0 = "?h1\<lparr>ctx_objs := (ctx_objs ?h1)(c := butlast ?L @ [?lA])\<rparr>"
  have L: "?L = butlast ?L @ [?lA]" using ne by simp
  have "ctx_objs ?h1 c = butlast ?L @ [?lA, ?nA]" using ne by simp
  then have r0: "ctx_pop ?h1 c = Inr ?h0" by (rule ctx_pop_result)
  have f01: "ctx_find ?h0 c CURRENT_COMP_KEY = Some (VStr idA)"
    by (rule ctx_find_top) (simp_all add: lAC cA)
  have f02: "ctx_find ?h0 c PARENT_COMP_KEY = Some (ctx_get h c CURRENT_COMP_KEY VNone)"
    by (rule ctx_find_top) (simp_all add: lAC pA)
  have in0: "\<exists>h0. ctx_pop ?h1 c = Inr h0
                   \<and> ctx_find h0 c CURRENT_COMP_KEY = Some (VStr idA)
                   \<and> ctx_find h0 c PARENT_COMP_KEY = Some (ctx_get h c CURRENT_COMP_KEY VNone)"
    by (rule exI [of _ ?h0]) (intro conjI r0 f01 f02)
  have in1: "\<exists>h1. ctx_pop hC c = Inr h1
              \<and> ctx_find h1 c CURRENT_COMP_KEY = Some (VStr idB)
              \<and> ctx_find h1 c PARENT_COMP_KEY = Some (VStr idA)
              \<and> (\<exists>h0. ctx_pop h1 c = Inr h0
                   \<and> ctx_find h0 c CURRENT_COMP_KEY = Some (VStr idA)
                   \<and> ctx_find h0 c PARENT_COMP_KEY = Some (ctx_get h c CURRENT_COMP_KEY VNone))"
    by (rule exI [of _ ?h1]) (intro conjI r1 f11 f12 in0)
  show ?thesis
    by (rule exI [of _ hA], rule exI [of _ hB], rule exI [of _ hC])
       (intro conjI rA rB rC fC1 fC2 in1)
qed

text \<open>
  Claim C5. On a live scope, \<^verbatim>\<open>prepare_context\<close> returns, and afterwards the parent
  component id visible in the scope is the value the current component id had just
  before the call (\<^verbatim>\<open>None\<close> when no component was current) and the current
  component id is the new one. Consequently, when A, B and C are entered in this
  order, B and C each on a layer pushed for the nested render, the scope shows
  parent B in C; after leaving C (one \<^verbatim>\<open>pop\<close>) it shows current B with parent A;
  after leaving B it shows current A with the parent that was current before A,
  \<^verbatim>\<open>None\<close> for a top-level render. The second hypothesis is only needed inside a
  loop, where the code copies the association map: what is visible under its key
  must then be a dict.
\<close>

theorem prepare_context_parent_chain:
  assumes "ctx_live h scope"
    and "ctx_contains h scope ''forloop'' \<longrightarrow>
           (\<forall>v. ctx_find h scope SLOT_COMPONENT_ASSOC_KEY = Some v \<longrightarrow> (\<exists>a. v = VDict a))"
  shows "(\<exists>h'. prepare_context policy h scope outer_context new_component_id = Inr h'
            \<and> ctx_find h' scope PARENT_COMP_KEY = Some (ctx_get h scope CURRENT_COMP_KEY VNone)
            \<and> ctx_find h' scope CURRENT_COMP_KEY = Some (VStr new_component_id))
       \<and> (\<exists>hA hB hC.
             prepare_context policy h scope outerA idA = Inr hA
           \<and> prepare_context policy (ctx_push hA scope Map.empty) scope outerB idB = Inr hB
           \<and> prepare_context policy (ctx_push hB scope Map.empty) scope outerC idC = Inr hC
           \<and> ctx_find hC scope CURRENT_COMP_KEY = Some (VStr idC)
           \<and> ctx_find hC scope PARENT_COMP_KEY = Some (VStr idB)
           \<and> (\<exists>h1. ctx_pop hC scope = Inr h1
                \<and> ctx_find h1 scope CURRENT_COMP_KEY = Some (VStr idB)
                \<and> ctx_find h1 scope PARENT_COMP_KEY = Some (VStr idA)
                \<and> (\<exists>h0. ctx_pop h1 scope = Inr h0
                     \<and> ctx_find h0 scope CURRENT_COMP_KEY = Some (VStr idA)
                     \<and> ctx_find h0 scope PARENT_COMP_KEY
                         = Some (ctx_get h scope CURRENT_COMP_KEY VNone))))"
proof (rule conjI)
  have ne: "ctx_objs h scope \<noteq> []" using assms(1) ctx_live_top by simp
  obtain h' where r: "prepare_context policy h scope outer_context new_component_id = Inr h'"
    and o: "ctx_objs h' scope = ctx_objs h scope"
    and p: "dict_objs h' (last (ctx_objs h scope)) PARENT_COMP_KEY
              = Some (ctx_get h scope CURRENT_COMP_KEY VNone)"
    and q: "dict_objs h' (last (ctx_objs h scope)) CURRENT_COMP_KEY
              = Some (VStr new_component_id)"
    by (rule prepare_context_enter [OF assms])
  have fp: "ctx_find h' scope PARENT_COMP_KEY = Some (ctx_get h scope CURRENT_COMP_KEY VNone)"
    by (rule ctx_find_top) (simp_all add: o ne p)
  have fq: "ctx_find h' scope CURRENT_COMP_KEY = Some (VStr new_component_id)"
    by (rule ctx_find_top) (simp_all add: o ne q)
  show "\<exists>h'. prepare_context policy h scope outer_context new_component_id = Inr h'
            \<and> ctx_find h' scope PARENT_COMP_KEY = Some (ctx_get h scope CURRENT_COMP_KEY VNone)
            \<and> ctx_find h' scope CURRENT_COMP_KEY = Some (VStr new_component_id)"
    by (rule exI [of _ h']) (intro conjI r fp fq)
next
  show "\<exists>hA hB hC.
             prepare_context policy h scope outerA idA = Inr hA
           \<and> prepare_context policy (ctx_push hA scope Map.empty) scope outerB idB = Inr hB
           \<and> prepare_context policy (ctx_push hB scope Map.empty) scope outerC idC = Inr hC
           \<and> ctx_find hC scope CURRENT_COMP_KEY = Some (VStr idC)
           \<and> ctx_find hC scope PARENT_COMP_KEY = Some (VStr idB)
           \<and> (\<exists>h1. ctx_pop hC scope = Inr h1
                \<and> ctx_find h1 scope CURRENT_COMP_KEY = Some (VStr idB)
                \<and> ctx_find h1 scope PARENT_COMP_KEY = Some (VStr idA)
                \<and> (\<exists>h0. ctx_pop h1 scope = Inr h0
                     \<and> ctx_find h0 scope CURRENT_COMP_KEY = Some (VStr idA)
                     \<and> ctx_find h0 scope PARENT_COMP_KEY
                         = Some (ctx_get h scope CURRENT_COMP_KEY VNone)))"
    by (rule nested_enter_chain [OF assms])
qed

lemma ex_first_scope:
  "\<not> ctx_contains ex_first 1 ''forloop''"
  "ctx_get ex_first 1 CURRENT_COMP_KEY VNone = VNone"
  by (simp_all add: ctx_contains_def ctx_get_def ctx_find_def ex_first_def mk_heap_def
      builtins_def CURRENT_COMP_KEY_def)

theorem prepare_context_parent_chain_witness:
  "(\<exists>h'. prepare_context DEFAULT ex_first 1 (Some 0) ''A'' = Inr h'
        \<and> ctx_find h' 1 PARENT_COMP_KEY = Some VNone
        \<and> ctx_find h' 1 CURRENT_COMP_KEY = Some (VStr ''A''))
   \<and> (\<exists>hA hB hC.
         prepare_context DEFAULT ex_first 1 (Some 0) ''A'' = Inr hA
       \<and> prepare_context DEFAULT (ctx_push hA 1 Map.empty) 1 (Some 1) ''B'' = Inr hB
       \<and> prepare_context DEFAULT (ctx_push hB 1 Map.empty) 1 (Some 1) ''C'' = Inr hC
       \<and> ctx_find hC 1 CURRENT_COMP_KEY = Some (VStr ''C'')
       \<and> ctx_find hC 1 PARENT_COMP_KEY = Some (VStr ''B'')
       \<and> (\<exists>h1. ctx_pop hC 1 = Inr h1
            \<and> ctx_find h1 1 CURRENT_COMP_KEY = Some (VStr ''B'')
            \<and> ctx_find h1 1 PARENT_COMP_KEY = Some (VStr ''A'')
            \<and> (\<exists>h0. ctx_pop h1 1 = Inr h0
                 \<and> ctx_find h0 1 CURRENT_COMP_KEY = Some (VStr ''A'')
                 \<and> ctx_find h0 1 PARENT_COMP_KEY = Some VNone)))"
proof -
  have ok: "ctx_contains ex_first 1 ''forloop'' \<longrightarrow>
           (\<forall>v. ctx_find ex_first 1 SLOT_COMPONENT_ASSOC_KEY = Some v \<longrightarrow> (\<exists>a. v = VDict a))"
    using ex_first_scope(1) by simp
  show ?thesis
    using prepare_context_parent_chain [OF ex_first_live(2) ok,
        where policy = DEFAULT and outer_context = "Some 0" and new_component_id = "''A''"
          and outerA = "Some 0" and idA = "''A''" and outerB = "Some 1" and idB = "''B''"
          and outerC = "Some 1" and idC = "''C''"]
    unfolding ex_first_scope(2) .
qed

text \<open>
  Claim C4. On a live scope \<^verbatim>\<open>prepare_context\<close> returns, leaves the list of layers as
  it was, and writes into no dict that existed before other than the last layer.
  When some layer has the marker \<^verbatim>\<open>forloop\<close>, the last layer's own entry for the
  association map is afterwards a dict \<open>a'\<close> that did not exist before the call, so
  it is what a lookup in the scope finds; its content is that of the map \<open>a\<close> that
  was visible before (empty when none was, the map then being created by the same
  call), and \<open>a\<close> itself, to which the lower layers refer, has the content it had.
  Without the marker and with a map visible, the last layer's own entry for the key
  is what it was and a lookup finds the same reference as before: no copy is made.
  The second hypothesis says that what is visible under the key inside a loop is a
  dict; the code calls \<^verbatim>\<open>.copy()\<close> on it.
\<close>

theorem prepare_context_forloop_copy:
  assumes "ctx_live h scope"
    and "ctx_contains h scope ''forloop'' \<longrightarrow>
           (\<forall>v. ctx_find h scope SLOT_COMPONENT_ASSOC_KEY = Some v \<longrightarrow> (\<exists>a. v = VDict a))"
  shows "\<exists>h'. prepare_context policy h scope outer_context component_id = Inr h'
     \<and> ctx_objs h' scope = ctx_objs h scope
     \<and> (\<forall>d. d < dict_next h \<and> d \<noteq> last (ctx_objs h scope) \<longrightarrow> dict_objs h' d = dict_objs h d)
     \<and> (ctx_contains h scope ''forloop'' \<longrightarrow>
          (\<exists>a'. dict_next h \<le> a' \<and> a' < dict_next h'
             \<and> dict_objs h' (last (ctx_objs h scope)) SLOT_COMPONENT_ASSOC_KEY = Some (VDict a')
             \<and> ctx_find h' scope SLOT_COMPONENT_ASSOC_KEY = Some (VDict a')
             \<and> (ctx_find h scope SLOT_COMPONENT_ASSOC_KEY = None \<longrightarrow> dict_objs h' a' = Map.empty)
             \<and> (\<forall>a. ctx_find h scope SLOT_COMPONENT_ASSOC_KEY = Some (VDict a)
                      \<and> a < dict_next h \<and> a \<noteq> last (ctx_objs h scope)
                    \<longrightarrow> dict_objs h' a' = dict_objs h a \<and> dict_objs h' a = dict_objs h a)))
     \<and> (\<not> ctx_contains h scope ''forloop'' \<longrightarrow>
          (\<forall>v. ctx_find h scope SLOT_COMPONENT_ASSOC_KEY = Some v \<longrightarrow>
             dict_objs h' (last (ctx_objs h scope)) SLOT_COMPONENT_ASSOC_KEY
               = dict_objs h (last (ctx_objs h scope)) SLOT_COMPONENT_ASSOC_KEY
             \<and> ctx_find h' scope SLOT_COMPONENT_ASSOC_KEY = Some v))"
proof -
  let ?A = SLOT_COMPONENT_ASSOC_KEY
  let ?top = "last (ctx_objs h scope)"
  let ?K = "{OUTER_ROOT_CTX_CONTEXT_KEY, ?A, FILLED_SLOTS_CONTENT_CONTEXT_KEY,
             PARENT_COMP_KEY, CURRENT_COMP_KEY}"
  have ne: "ctx_objs h scope \<noteq> []" using assms(1) ctx_live_top by simp
  from prepare_context_result [OF assms, of policy outer_context component_id]
  obtain h' where r: "prepare_context policy h scope outer_context component_id = Inr h'"
    and w: "writes_top ?K scope h h'"
    and p: "dict_objs h' ?top PARENT_COMP_KEY = Some (ctx_get h scope CURRENT_COMP_KEY VNone)"
    and q: "dict_objs h' ?top CURRENT_COMP_KEY = Some (VStr component_id)"
    and il: "ctx_contains h scope ''forloop'' \<longrightarrow>
          (\<exists>a'. dict_next h \<le> a' \<and> a' < dict_next h'
             \<and> dict_objs h' ?top ?A = Some (VDict a')
             \<and> (ctx_find h scope ?A = None \<longrightarrow> dict_objs h' a' = Map.empty)
             \<and> (\<forall>a. ctx_find h scope ?A = Some (VDict a) \<and> a < dict_next h \<and> a \<noteq> ?top
                    \<longrightarrow> dict_objs h' a' = dict_objs h a))"
    and nl: "\<not> ctx_contains h scope ''forloop'' \<and> ctx_find h scope ?A \<noteq> None \<longrightarrow>
          dict_objs h' ?top ?A = dict_objs h ?top ?A"
    by (elim exE conjE)
  have o: "ctx_objs h' scope = ctx_objs h scope" using w by (rule writes_top_objs)
  have fr: "\<forall>d. d < dict_next h \<and> d \<noteq> ?top \<longrightarrow> dict_objs h' d = dict_objs h d"
    using w by (simp add: writes_top_def)
  have inloop: "ctx_contains h scope ''forloop'' \<longrightarrow>
          (\<exists>a'. dict_next h \<le> a' \<and> a' < dict_next h'
             \<and> dict_objs h' ?top ?A = Some (VDict a')
             \<and> ctx_find h' scope ?A = Some (VDict a')
             \<and> (ctx_find h scope ?A = None \<longrightarrow> dict_objs h' a' = Map.empty)
             \<and> (\<forall>a. ctx_find h scope ?A = Some (VDict a) \<and> a < dict_next h \<and> a \<noteq> ?top
                    \<longrightarrow> dict_objs h' a' = dict_objs h a \<and> dict_objs h' a = dict_objs h a))"
  proof
    assume "ctx_contains h scope ''forloop''"
    with il have "\<exists>a'. dict_next h \<le> a' \<and> a' < dict_next h'
             \<and> dict_objs h' ?top ?A = Some (VDict a')
             \<and> (ctx_find h scope ?A = None \<longrightarrow> dict_objs h' a' = Map.empty)
             \<and> (\<forall>a. ctx_find h scope ?A = Some (VDict a) \<and> a < dict_next h \<and> a \<noteq> ?top
                    \<longrightarrow> dict_objs h' a' = dict_objs h a)" by (rule mp)
    then obtain a' where g1: "dict_next h \<le> a'" and g2: "a' < dict_next h'"
      and g3: "dict_objs h' ?top ?A = Some (VDict a')"
      and g4: "ctx_find h scope ?A = None \<longrightarrow> dict_objs h' a' = Map.empty"
      and g5: "\<forall>a. ctx_find h scope ?A = Some (VDict a) \<and> a < dict_next h \<and> a \<noteq> ?top
                    \<longrightarrow> dict_objs h' a' = dict_objs h a"
      by (elim exE conjE)
    have g6: "ctx_find h' scope ?A = Some (VDict a')"
      by (rule ctx_find_top) (simp_all add: o ne g3)
    have g7: "\<forall>a. ctx_find h scope ?A = Some (VDict a) \<and> a < dict_next h \<and> a \<noteq> ?top
                    \<longrightarrow> dict_objs h' a' = dict_objs h a \<and> dict_objs h' a = dict_objs h a"
      using g5 fr by simp
    show "\<exists>a'. dict_next h \<le> a' \<and> a' < dict_next h'
             \<and> dict_objs h' ?top ?A = Some (VDict a')
             \<and> ctx_find h' scope ?A = Some (VDict a')
             \<and> (ctx_find h scope ?A = None \<longrightarrow> dict_objs h' a' = Map.empty)
             \<and> (\<forall>a. ctx_find h scope ?A = Some (VDict a) \<and> a < dict_next h \<and> a \<noteq> ?top
                    \<longrightarrow> dict_objs h' a' = dict_objs h a \<and> dict_objs h' a = dict_objs h a)"
      by (rule exI [of _ a']) (intro conjI g1 g2 g3 g6 g4 g7)
  qed
  have noloop: "\<not> ctx_contains h scope ''forloop'' \<longrightarrow>
          (\<forall>v. ctx_find h scope ?A = Some v \<longrightarrow>
             dict_objs h' ?top ?A = dict_objs h ?top ?A \<and> ctx_find h' scope ?A = Some v)"
  proof (intro impI allI)
    fix v assume nf: "\<not> ctx_contains h scope ''forloop''" and v: "ctx_find h scope ?A = Some v"
    have t: "dict_objs h' ?top ?A = dict_objs h ?top ?A" using nl nf v by simp
    have "ctx_find h' scope ?A = ctx_find h scope ?A"
    proof (rule ctx_find_cong [OF o])
      fix d assume "d \<in> set (ctx_objs h scope)"
      then have "d < dict_next h" by (rule ctx_live_layers [OF assms(1)])
      then show "dict_objs h' d ?A = dict_objs h d ?A"
        using t fr by (cases "d = ?top") simp_all
    qed
    with v t show "dict_objs h' ?top ?A = dict_objs h ?top ?A \<and> ctx_find h' scope ?A = Some v"
      by simp
  qed
  show ?thesis by (rule exI [of _ h']) (intro conjI r o fr inloop noloop)
qed

lemma ex_loop_scope:
  "ctx_live ex_loop 0"
  "ctx_find ex_loop 0 SLOT_COMPONENT_ASSOC_KEY = Some (VDict 5)"
  "dict_next ex_loop = 7"
  "last (ctx_objs ex_loop 0) = 3"
  "dict_objs ex_loop 5 = [''slot1'' \<mapsto> VStr ''comp1'']"
  "dict_objs ex_loop 1 SLOT_COMPONENT_ASSOC_KEY = Some (VDict 5)"
  by (simp_all add: ctx_live_def ctx_find_def ex_loop_def mk_heap_def
      SLOT_COMPONENT_ASSOC_KEY_def FILLED_SLOTS_CONTENT_CONTEXT_KEY_def)

lemma ex_rendering_scope:
  "\<not> ctx_contains ex_rendering 1 ''forloop''"
  "last (ctx_objs ex_rendering 1) = 5"
  by (simp_all add: ctx_contains_def ex_rendering_def mk_heap_def builtins_def
      SLOT_COMPONENT_ASSOC_KEY_def FILLED_SLOTS_CONTENT_CONTEXT_KEY_def
      OUTER_ROOT_CTX_CONTEXT_KEY_def)

theorem prepare_context_forloop_copy_witness:
  "(\<exists>h' a'. prepare_context DEFAULT ex_loop 0 (Some 1) ''c1'' = Inr h'
         \<and> 7 \<le> a'
         \<and> dict_objs h' 3 SLOT_COMPONENT_ASSOC_KEY = Some (VDict a')
         \<and> ctx_find h' 0 SLOT_COMPONENT_ASSOC_KEY = Some (VDict a')
         \<and> dict_objs h' a' = [''slot1'' \<mapsto> VStr ''comp1'']
         \<and> dict_objs h' 5 = [''slot1'' \<mapsto> VStr ''comp1'']
         \<and> dict_objs h' 1 SLOT_COMPONENT_ASSOC_KEY = Some (VDict 5))
   \<and> (\<exists>h'. prepare_context DEFAULT ex_rendering 1 (Some 0) ''c1'' = Inr h'
         \<and> dict_objs h' 5 SLOT_COMPONENT_ASSOC_KEY = None
         \<and> ctx_find h' 1 SLOT_COMPONENT_ASSOC_KEY = Some (VDict 6))"
proof (rule conjI)
  let ?A = SLOT_COMPONENT_ASSOC_KEY
  have ok: "ctx_contains ex_loop 0 ''forloop'' \<longrightarrow>
              (\<forall>v. ctx_find ex_loop 0 ?A = Some v \<longrightarrow> (\<exists>a. v = VDict a))"
    by (simp add: ex_loop_scope(2))
  from prepare_context_forloop_copy [OF ex_loop_scope(1) ok,
      where policy = DEFAULT and outer_context = "Some 1" and component_id = "''c1''"]
  obtain h' where r: "prepare_context DEFAULT ex_loop 0 (Some 1) ''c1'' = Inr h'"
    and fr: "\<forall>d. d < dict_next ex_loop \<and> d \<noteq> last (ctx_objs ex_loop 0)
               \<longrightarrow> dict_objs h' d = dict_objs ex_loop d"
    and il: "ctx_contains ex_loop 0 ''forloop'' \<longrightarrow>
          (\<exists>a'. dict_next ex_loop \<le> a' \<and> a' < dict_next h'
             \<and> dict_objs h' (last (ctx_objs ex_loop 0)) ?A = Some (VDict a')
             \<and> ctx_find h' 0 ?A = Some (VDict a')
             \<and> (ctx_find ex_loop 0 ?A = None \<longrightarrow> dict_objs h' a' = Map.empty)
             \<and> (\<forall>a. ctx_find ex_loop 0 ?A = Some (VDict a)
                      \<and> a < dict_next ex_loop \<and> a \<noteq> last (ctx_objs ex_loop 0)
                    \<longrightarrow> dict_objs h' a' = dict_objs ex_loop a
                        \<and> dict_objs h' a = dict_objs ex_loop a))"
    by (elim exE conjE)
  from il ex_loop_marker
  have "\<exists>a'. dict_next ex_loop \<le> a' \<and> a' < dict_next h'
             \<and> dict_objs h' (last (ctx_objs ex_loop 0)) ?A = Some (VDict a')
             \<and> ctx_find h' 0 ?A = Some (VDict a')
             \<and> (ctx_find ex_loop 0 ?A = None \<longrightarrow> dict_objs h' a' = Map.empty)
             \<and> (\<forall>a. ctx_find ex_loop 0 ?A = Some (VDict a)
                      \<and> a < dict_next ex_loop \<and> a \<noteq> last (ctx_objs ex_loop 0)
                    \<longrightarrow> dict_objs h' a' = dict_objs ex_loop a
                        \<and> dict_objs h' a = dict_objs ex_loop a)"
    by (rule mp)
  then obtain a' where g1: "dict_next ex_loop \<le> a'"
    and g3: "dict_objs h' (last (ctx_objs ex_loop 0)) ?A = Some (VDict a')"
    and g4: "ctx_find h' 0 ?A = Some (VDict a')"
    and g5: "\<forall>a. ctx_find ex_loop 0 ?A = Some (VDict a)
                      \<and> a < dict_next ex_loop \<and> a \<noteq> last (ctx_objs ex_loop 0)
                    \<longrightarrow> dict_objs h' a' = dict_objs ex_loop a
                        \<and> dict_objs h' a = dict_objs ex_loop a"
    by (elim exE conjE)
  have c1: "7 \<le> a'" using g1 by (simp add: ex_loop_scope(3))
  have c2: "dict_objs h' 3 ?A = Some (VDict a')" using g3 by (simp add: ex_loop_scope(4))
  have "ctx_find ex_loop 0 ?A = Some (VDict 5) \<and> 5 < dict_next ex_loop
          \<and> 5 \<noteq> last (ctx_objs ex_loop 0)"
    by (simp add: ex_loop_scope)
  with g5 have "dict_objs h' a' = dict_objs ex_loop 5 \<and> dict_objs h' 5 = dict_objs ex_loop 5"
    by blast
  then have c3: "dict_objs h' a' = [''slot1'' \<mapsto> VStr ''comp1'']"
    and c4: "dict_objs h' 5 = [''slot1'' \<mapsto> VStr ''comp1'']"
    by (simp_all add: ex_loop_scope(5))
  have "1 < dict_next ex_loop \<and> 1 \<noteq> last (ctx_objs ex_loop 0)" by (simp add: ex_loop_scope)
  with fr have "dict_objs h' 1 = dict_objs ex_loop 1" by blast
  then have c5: "dict_objs h' 1 ?A = Some (VDict 5)" by (simp only: ex_loop_scope(6))
  show "\<exists>h' a'. prepare_context DEFAULT ex_loop 0 (Some 1) ''c1'' = Inr h'
         \<and> 7 \<le> a'
         \<and> dict_objs h' 3 ?A = Some (VDict a')
         \<and> ctx_find h' 0 ?A = Some (VDict a')
         \<and> dict_objs h' a' = [''slot1'' \<mapsto> VStr ''comp1'']
         \<and> dict_objs h' 5 = [''slot1'' \<mapsto> VStr ''comp1'']
         \<and> dict_objs h' 1 ?A = Some (VDict 5)"
    by (rule exI [of _ h'], rule exI [of _ a']) (intro conjI r c1 c2 g4 c3 c4 c5)
next
  let ?A = SLOT_COMPONENT_ASSOC_KEY
  have ok: "ctx_contains ex_rendering 1 ''forloop'' \<longrightarrow>
              (\<forall>v. ctx_find ex_rendering 1 ?A = Some v \<longrightarrow> (\<exists>a. v = VDict a))"
    using ex_rendering_scope(1) by simp
  from prepare_context_forloop_copy [OF ex_rendering_live ok,
      where policy = DEFAULT and outer_context = "Some 0" and component_id = "''c1''"]
  obtain h' where r: "prepare_context DEFAULT ex_rendering 1 (Some 0) ''c1'' = Inr h'"
    and nl: "\<not> ctx_contains ex_rendering 1 ''forloop'' \<longrightarrow>
          (\<forall>v. ctx_find ex_rendering 1 ?A = Some v \<longrightarrow>
             dict_objs h' (last (ctx_objs ex_rendering 1)) ?A
               = dict_objs ex_rendering (last (ctx_objs ex_rendering 1)) ?A
             \<and> ctx_find h' 1 ?A = Some v)"
    by (elim exE conjE)
  from nl ex_rendering_scope(1) ex_rendering_assoc
  have "dict_objs h' (last (ctx_objs ex_rendering 1)) ?A
               = dict_objs ex_rendering (last (ctx_objs ex_rendering 1)) ?A
             \<and> ctx_find h' 1 ?A = Some (VDict 6)"
    by blast
  then have c1: "dict_objs h' 5 ?A = None" and c2: "ctx_find h' 1 ?A = Some (VDict 6)"
    by (simp_all only: ex_rendering_scope(2) ex_rendering_top_empty)
  show "\<exists>h'. prepare_context DEFAULT ex_rendering 1 (Some 0) ''c1'' = Inr h'
         \<and> dict_objs h' 5 ?A = None
         \<and> ctx_find h' 1 ?A = Some (VDict 6)"
    by (rule exI [of _ h']) (intro conjI r c1 c2)
qed

end
